theory Spec2Isabelle
  imports Complex_Main
begin

section \<open>Data model of the trend analyzer\<close>

text \<open>
  The development follows \<^verbatim>\<open>trend_analyzer.py\<close> (class \<^verbatim>\<open>TrendAnalyzer\<close>).

  Conventions of the embedding.
  \<^item> A Python \<^verbatim>\<open>str\<close> is a \<open>string\<close>; each \<open>char\<close> stands for one code point
    below 256, so \<open>length\<close> is Python's \<^verbatim>\<open>len\<close>.
  \<^item> A Python \<^verbatim>\<open>dict\<close> whose iteration order is observable is an association list in
    insertion order; a dictionary has no repeated key, which theorems state as
    \<open>distinct (map fst d)\<close> where they need it.
  \<^item> Python integers are \<open>int\<close>. A Python \<^verbatim>\<open>float\<close> is the rational number it
    denotes. True division \<^verbatim>\<open>/\<close> of two integers rounds the quotient to the nearest
    binary64 value, ties to even; it raises \<^verbatim>\<open>ZeroDivisionError\<close> on a zero divisor
    and \<^verbatim>\<open>OverflowError\<close> when the rounded quotient lies beyond the binary64 range.
  \<^item> The standard library and pandas are not part of the repository. Their functions
    are a parameter of the model (\<open>pylib\<close>); the facts about them that a theorem
    relies on are hypotheses of that theorem.
  \<^item> \<^verbatim>\<open>random.randint(9, 17)\<close> reads an entropy stream \<open>g :: nat \<Rightarrow> nat\<close> at a
    counter that is threaded through the analysis.
  \<^item> \<^verbatim>\<open>print\<close> is not modelled.
\<close>

datatype error = TypeError | ZeroDivisionError | OverflowError

text \<open>
  \<open>and_then\<close> runs the rest of a block on the value of a step that returned, and
  leaves the block with the exception of a step that raised.
\<close>

definition and_then :: "error + 'a \<Rightarrow> ('a \<Rightarrow> error + 'b) \<Rightarrow> error + 'b" where
  "and_then m f = (case m of Inl e \<Rightarrow> Inl e | Inr x \<Rightarrow> f x)"

text \<open>A loop that builds a list from the values of \<open>f\<close> and stops at the first exception.\<close>

fun collect :: "('a \<Rightarrow> error + 'b) \<Rightarrow> 'a list \<Rightarrow> error + 'b list" where
  "collect f [] = Inr []"
| "collect f (x # xs) = and_then (f x) (\<lambda>y. and_then (collect f xs) (\<lambda>ys. Inr (y # ys)))"

record datetime =
  year :: nat
  month :: nat
  day :: nat
  hour :: nat
  minute :: nat
  second :: nat
  microsecond :: nat
  utcoffset :: "int option"

text \<open>
  \<open>utcoffset\<close> is the offset from UTC in microseconds; \<open>None\<close> is a naive datetime
  (\<^verbatim>\<open>tzinfo is None\<close>).
\<close>

record item =
  title :: "string option"
  url :: "string option"
  published_at :: "string option"
  keyword :: "string option"
  platform :: "string option"
  engagement_metrics :: "(string \<times> int) list option"

type_synonym dataset = "(string \<times> item list) list"

record pylib =
  fromisoformat :: "string \<Rightarrow> datetime option"
  strptime :: "string \<Rightarrow> datetime option"
  value_counts :: "nat list \<Rightarrow> (nat \<times> nat) list"

text \<open>
  \<open>fromisoformat\<close> is \<^verbatim>\<open>datetime.fromisoformat\<close>, \<open>strptime\<close> is
  \<^verbatim>\<open>datetime.strptime(_, '%Y-%m-%d %H:%M:%S')\<close>; \<open>None\<close> is their \<^verbatim>\<open>ValueError\<close>.
  \<open>value_counts\<close> is \<^verbatim>\<open>pd.Series(_).value_counts()\<close>, as the list of its
  (label, count) rows from the top.
\<close>

definition dict_get :: "'a option \<Rightarrow> 'a \<Rightarrow> 'a" where
  "dict_get v d = (case v of None \<Rightarrow> d | Some x \<Rightarrow> x)"

definition metric :: "item \<Rightarrow> string \<Rightarrow> int" where
  "metric it k = dict_get (map_of (dict_get (engagement_metrics it) []) k) 0"

subsection \<open>Text helpers\<close>

definition digit_char :: "nat \<Rightarrow> char" where
  "digit_char n = ''0123456789'' ! n"

fun show_nat :: "nat \<Rightarrow> string" where
  "show_nat n = (if n < 10 then [digit_char n] else show_nat (n div 10) @ [digit_char (n mod 10)])"

declare show_nat.simps [simp del]

definition endswith_Z :: "string \<Rightarrow> bool" where
  "endswith_Z s = (s \<noteq> [] \<and> last s = CHR ''Z'')"

definition replace_Z :: "string \<Rightarrow> string" where
  "replace_Z s = concat (map (\<lambda>c. if c = CHR ''Z'' then ''+00:00'' else [c]) s)"

subsection \<open>Reading a timestamp\<close>

text \<open>
  The same three-way parse stands in \<^verbatim>\<open>_analyze_posting_times\<close>, \<^verbatim>\<open>_get_date_range\<close> and
  \<^verbatim>\<open>_get_engagement_trend\<close>: a text that holds a \<^verbatim>\<open>T\<close> goes to \<^verbatim>\<open>fromisoformat\<close>
  (after \<^verbatim>\<open>replace('Z', '+00:00')\<close> when it ends in \<^verbatim>\<open>Z\<close>), any other text goes to
  \<^verbatim>\<open>strptime\<close>.
\<close>

definition parse_published :: "pylib \<Rightarrow> string \<Rightarrow> datetime option" where
  "parse_published L pub_time =
     (if CHR ''T'' \<in> set pub_time then
        (if endswith_Z pub_time then fromisoformat L (replace_Z pub_time)
         else fromisoformat L pub_time)
      else strptime L pub_time)"

definition randint :: "nat \<Rightarrow> nat \<Rightarrow> nat \<Rightarrow> nat" where
  "randint a b r = a + r mod (b - a + 1)"

section \<open>Numbers\<close>

text \<open>
  \<open>round_half_even\<close> is the integer nearest to a rational, the even one of the two when
  the rational lies halfway.
\<close>

definition round_half_even :: "rat \<Rightarrow> int" where
  "round_half_even x =
     (let f = \<lfloor>x\<rfloor>; d = x - of_int f
      in if d < 1 / 2 then f else if 1 / 2 < d then f + 1 else if even f then f else f + 1)"

text \<open>\<^verbatim>\<open>int.bit_length\<close> on the integers from 0 on, and the powers of two.\<close>

function bit_length :: "int \<Rightarrow> int" where
  "bit_length n = (if n \<le> 0 then 0 else 1 + bit_length (n div 2))"
  by auto
termination by (relation "measure nat") auto

declare bit_length.simps [simp del]

function two_to :: "int \<Rightarrow> int" where
  "two_to n = (if n \<le> 0 then 1 else 2 * two_to (n - 1))"
  by auto
termination by (relation "measure nat") auto

declare two_to.simps [simp del]

definition pow2 :: "int \<Rightarrow> rat" where
  "pow2 e = (if 0 \<le> e then of_int (two_to e) else 1 / of_int (two_to (- e)))"

text \<open>
  The binary exponent of a positive rational \<open>q\<close>: the \<open>e\<close> with
  \<open>2^e \<le> q < 2^(e + 1)\<close>.
\<close>

definition exponent :: "rat \<Rightarrow> int" where
  "exponent q =
     (let (a, b) = quotient_of q; e = bit_length a - bit_length b
      in if pow2 e \<le> q then e else e - 1)"

text \<open>
  The binary64 value nearest to a rational, ties to even: a multiple of the unit in the
  last place, which is \<open>2^(e - 52)\<close> for a number of exponent \<open>e\<close>, and \<open>2^(- 1074)\<close>
  below \<open>2^(- 1022)\<close>. A result of magnitude \<open>2^1024\<close> or more is beyond the binary64
  range: \<open>exceeds_float\<close> reads it off the number of bits of the integer part.
\<close>

definition binary64 :: "rat \<Rightarrow> rat" where
  "binary64 q =
     (if q = 0 then 0
      else (let ulp = pow2 (max (exponent \<bar>q\<bar>) (- 1022) - 52)
            in sgn q * of_int (round_half_even (\<bar>q\<bar> / ulp)) * ulp))"

definition exceeds_float :: "rat \<Rightarrow> bool" where
  "exceeds_float r = (1024 < bit_length \<lfloor>\<bar>r\<bar>\<rfloor>)"

text \<open>\<^verbatim>\<open>a / b\<close> on two Python integers.\<close>

definition truediv :: "int \<Rightarrow> int \<Rightarrow> error + rat" where
  "truediv a b =
     (if b = 0 then Inl ZeroDivisionError
      else (let r = binary64 (of_int a / of_int b)
            in if exceeds_float r then Inl OverflowError else Inr r))"

text \<open>\<^verbatim>\<open>int(x)\<close> on a float: truncation toward zero.\<close>

definition py_int :: "rat \<Rightarrow> int" where
  "py_int q = (if 0 \<le> q then \<lfloor>q\<rfloor> else \<lceil>q\<rceil>)"

text \<open>\<^verbatim>\<open>sum(xs) / len(xs)\<close>.\<close>

definition mean :: "int list \<Rightarrow> error + rat" where
  "mean xs = truediv (sum_list xs) (int (length xs))"

text \<open>
  \<^verbatim>\<open>x > a * c\<close> and \<^verbatim>\<open>x < a * c\<close> on floats: the product is rounded, and a product
  beyond the binary64 range is an infinity of its sign.
\<close>

definition gt_product :: "rat \<Rightarrow> rat \<Rightarrow> rat \<Rightarrow> bool" where
  "gt_product x a c = (let p = binary64 (a * c) in if exceeds_float p then p < 0 else p < x)"

definition lt_product :: "rat \<Rightarrow> rat \<Rightarrow> rat \<Rightarrow> bool" where
  "lt_product x a c = (let p = binary64 (a * c) in if exceeds_float p then 0 < p else x < p)"

section \<open>Posting-time analysis\<close>

record posting_times =
  peak_hours :: "nat list"
  best_time_range :: string
  sample_size :: nat
  peak_hour :: nat

definition default_times :: posting_times where
  "default_times =
     \<lparr>peak_hours = [10, 14, 19], best_time_range = ''10:00 - 19:00'',
      sample_size = 0, peak_hour = 14\<rparr>"

text \<open>
  The loop over the items of one platform. An absent or empty \<^verbatim>\<open>published_at\<close> adds
  no hour; a text that parses adds \<^verbatim>\<open>dt.hour\<close>; a text that does not parse adds
  \<^verbatim>\<open>random.randint(9, 17)\<close> and advances the entropy counter.
\<close>

fun extract_hours :: "pylib \<Rightarrow> (nat \<Rightarrow> nat) \<Rightarrow> nat \<Rightarrow> item list \<Rightarrow> nat list \<times> nat" where
  "extract_hours L g k [] = ([], k)"
| "extract_hours L g k (it # its) =
     (let pub_time = dict_get (published_at it) '''' in
      if pub_time \<noteq> '''' then
        (case parse_published L pub_time of
           Some dt \<Rightarrow>
             (let (hours, k') = extract_hours L g k its in (hour dt # hours, k'))
         | None \<Rightarrow>
             (let (hours, k') = extract_hours L g (Suc k) its
              in (randint 9 17 (g k) # hours, k')))
      else extract_hours L g k its)"

text \<open>\<^verbatim>\<open>hour_counts.idxmax()\<close>: the label of the first row that holds the largest count.\<close>

fun idxmax_from :: "nat \<times> nat \<Rightarrow> (nat \<times> nat) list \<Rightarrow> nat" where
  "idxmax_from b [] = fst b"
| "idxmax_from b (p # ps) = idxmax_from (if snd b < snd p then p else b) ps"

definition idxmax :: "(nat \<times> nat) list \<Rightarrow> nat" where
  "idxmax rows = (case rows of [] \<Rightarrow> 14 | p # ps \<Rightarrow> idxmax_from p ps)"

definition time_range :: "nat list \<Rightarrow> string" where
  "time_range hs =
     (if 2 \<le> length hs then show_nat (hd hs) @ '':00 - '' @ show_nat (last hs) @ '':00''
      else show_nat (hd hs) @ '':00 - '' @ show_nat ((hd hs + 3) mod 24) @ '':00'')"

definition posting_entry :: "pylib \<Rightarrow> nat list \<Rightarrow> posting_times" where
  "posting_entry L hours =
     (if hours \<noteq> [] then
        (let hour_counts = value_counts L hours in
         if hour_counts \<noteq> [] then
           (let peak = sort (map fst (take 3 hour_counts))
            in \<lparr>peak_hours = peak, best_time_range = time_range peak,
                sample_size = length hours, peak_hour = idxmax hour_counts\<rparr>)
         else default_times)
      else default_times)"

fun analyze_posting_times ::
  "pylib \<Rightarrow> (nat \<Rightarrow> nat) \<Rightarrow> nat \<Rightarrow> dataset \<Rightarrow> (string \<times> posting_times) list" where
  "analyze_posting_times L g k [] = []"
| "analyze_posting_times L g k ((p, items) # rest) =
     (if items = [] then analyze_posting_times L g k rest
      else (let (hours, k') = extract_hours L g k items
            in (p, posting_entry L hours) # analyze_posting_times L g k' rest))"

section \<open>Counting\<close>

text \<open>
  \<^verbatim>\<open>collections.Counter(xs)\<close> is a dictionary filled in the order of first appearance;
  \<^verbatim>\<open>most_common(n)\<close> sorts it by descending count, keeping that order among equal
  counts, and returns the first \<open>n\<close> rows.
\<close>

fun counter_add :: "'a \<Rightarrow> ('a \<times> nat) list \<Rightarrow> ('a \<times> nat) list" where
  "counter_add w [] = [(w, 1)]"
| "counter_add w ((k, n) # r) =
     (if k = w then (k, Suc n) # r else (k, n) # counter_add w r)"

definition counter :: "'a list \<Rightarrow> ('a \<times> nat) list" where
  "counter ws = foldl (\<lambda>c w. counter_add w c) [] ws"

definition most_common :: "nat \<Rightarrow> ('a \<times> nat) list \<Rightarrow> ('a \<times> nat) list" where
  "most_common n c = take n (sort_key (\<lambda>p. - int (snd p)) c)"

section \<open>Viral-pattern analysis\<close>

text \<open>
  \<^verbatim>\<open>str.lower\<close> and the class \<^verbatim>\<open>\w\<close> of \<^verbatim>\<open>re\<close> on the code points below 256.
\<close>

definition py_lower_char :: "char \<Rightarrow> char" where
  "py_lower_char c =
     (let n = (of_char c :: nat)
      in if (65 \<le> n \<and> n \<le> 90) \<or> (192 \<le> n \<and> n \<le> 214) \<or> (216 \<le> n \<and> n \<le> 222)
         then char_of (n + 32) else c)"

definition py_lower :: "string \<Rightarrow> string" where
  "py_lower s = map py_lower_char s"

definition is_word_char :: "char \<Rightarrow> bool" where
  "is_word_char c =
     (let n = (of_char c :: nat)
      in (48 \<le> n \<and> n \<le> 57) \<or> (65 \<le> n \<and> n \<le> 90) \<or> n = 95 \<or> (97 \<le> n \<and> n \<le> 122)
         \<or> n = 170 \<or> n = 178 \<or> n = 179 \<or> n = 181 \<or> n = 185 \<or> n = 186
         \<or> n = 188 \<or> n = 189 \<or> n = 190
         \<or> (192 \<le> n \<and> n \<le> 214) \<or> (216 \<le> n \<and> n \<le> 246) \<or> 248 \<le> n)"

text \<open>
  The maximal runs of word characters of a text, from the left; \<open>cur\<close> is the run
  being read. \<^verbatim>\<open>re.findall(r'\b\w{4,}\b', s)\<close> returns the runs of four characters or
  more.
\<close>

fun word_runs :: "string \<Rightarrow> string \<Rightarrow> string list" where
  "word_runs cur [] = (if cur = [] then [] else [cur])"
| "word_runs cur (c # cs) =
     (if is_word_char c then word_runs (cur @ [c]) cs
      else if cur = [] then word_runs [] cs
      else cur # word_runs [] cs)"

definition findall_words4 :: "string \<Rightarrow> string list" where
  "findall_words4 s = filter (\<lambda>w. 4 \<le> length w) (word_runs [] s)"

fun join :: "string \<Rightarrow> string list \<Rightarrow> string" where
  "join sep [] = []"
| "join sep [x] = x"
| "join sep (x # y # r) = x @ sep @ join sep (y # r)"

datatype vval = VList "string list" | VEmptyDict

fun dict_set :: "'k \<Rightarrow> 'v \<Rightarrow> ('k \<times> 'v) list \<Rightarrow> ('k \<times> 'v) list" where
  "dict_set k v [] = [(k, v)]"
| "dict_set k v ((k', v') # r) =
     (if k' = k then (k', v) # r else (k', v') # dict_set k v r)"

definition patterns_init :: "(string \<times> vval) list" where
  "patterns_init =
     [(''high_engagement_titles'', VList []),
      (''common_keywords_in_viral'', VList []),
      (''content_length_pattern'', VEmptyDict),
      (''emotional_triggers'', VList [])]"

definition item_title :: "item \<Rightarrow> string" where
  "item_title it = dict_get (title it) ''''"

definition viral_videos :: "item list \<Rightarrow> error + item list" where
  "viral_videos youtube_data =
     (let views = map (\<lambda>it. metric it ''views'') youtube_data
      in if views \<noteq> [] then
           and_then (mean views)
             (\<lambda>avg_views.
                Inr (filter (\<lambda>it. avg_views < of_int (metric it ''views'')) youtube_data))
         else Inr [])"

definition high_engagement_titles :: "item list \<Rightarrow> string list" where
  "high_engagement_titles viral =
     map (take 100) (filter (\<lambda>t. t \<noteq> '''') (map item_title (take 5 viral)))"

definition common_keywords :: "item list \<Rightarrow> string list" where
  "common_keywords viral =
     (let all_titles = join '' '' (filter (\<lambda>t. t \<noteq> '''') (map item_title viral))
      in if all_titles \<noteq> '''' then
           (let words = findall_words4 (py_lower all_titles)
            in if words \<noteq> [] then map fst (most_common 10 (counter words)) else [])
         else [])"

definition analyze_viral_patterns :: "dataset \<Rightarrow> error + (string \<times> vval) list" where
  "analyze_viral_patterns d =
     (let patterns = patterns_init;
          youtube_data = dict_get (map_of d ''youtube'') []
      in if youtube_data \<noteq> [] then
           and_then (viral_videos youtube_data)
             (\<lambda>viral.
                if viral \<noteq> [] then
                  Inr (dict_set ''common_keywords_in_viral'' (VList (common_keywords viral))
                         (dict_set ''high_engagement_titles''
                            (VList (high_engagement_titles viral)) patterns))
                else Inr patterns)
         else Inr patterns)"

section \<open>Engagement aggregation\<close>

text \<open>
  The values of a statistics dictionary are numbers; an \<^verbatim>\<open>int\<close> is kept as the rational
  equal to it. The entries are evaluated from the first to the last, so the first
  division that raises decides the exception.
\<close>

type_synonym stats = "(string \<times> rat) list"

definition youtube_stats :: "item list \<Rightarrow> error + stats" where
  "youtube_stats items =
     (let views = map (\<lambda>it. metric it ''views'') items;
          likes = map (\<lambda>it. metric it ''likes'') items
      in and_then (mean views) (\<lambda>avg_views.
         and_then (if likes \<noteq> [] then mean likes else Inr 0) (\<lambda>avg_likes.
         and_then (if 0 < sum_list views then truediv (sum_list likes) (sum_list views)
                   else Inr 0) (\<lambda>view_to_like_ratio.
           Inr [(''avg_views'', of_int (py_int avg_views)),
                (''avg_likes'', of_int (py_int avg_likes)),
                (''view_to_like_ratio'', view_to_like_ratio),
                (''max_views'', of_int (Max (set views))),
                (''min_views'', of_int (Min (set views))),
                (''total_items'', of_nat (length items))]))))"

definition reddit_stats :: "item list \<Rightarrow> error + stats" where
  "reddit_stats items =
     (let upvotes = map (\<lambda>it. metric it ''upvotes'') items;
          comments = map (\<lambda>it. metric it ''comments'') items
      in and_then (mean upvotes) (\<lambda>avg_upvotes.
         and_then (if comments \<noteq> [] then mean comments else Inr 0) (\<lambda>avg_comments.
         and_then (if 0 < sum_list upvotes then truediv (sum_list comments) (sum_list upvotes)
                   else Inr 0) (\<lambda>engagement_rate.
           Inr [(''avg_upvotes'', of_int (py_int avg_upvotes)),
                (''avg_comments'', of_int (py_int avg_comments)),
                (''engagement_rate'', engagement_rate),
                (''total_items'', of_nat (length items))]))))"

definition news_stats :: "item list \<Rightarrow> error + stats" where
  "news_stats items =
     and_then (if items \<noteq> [] then
                 truediv (int (sum_list (map (\<lambda>it. length (item_title it)) items)))
                         (int (length items))
               else Inr 0) (\<lambda>avg_title_length.
       Inr [(''total_items'', of_nat (length items)),
            (''avg_title_length'', avg_title_length)])"

text \<open>The entry that one pass of the loop of \<^verbatim>\<open>_analyze_engagement\<close> writes, if any.\<close>

definition platform_stats :: "string \<Rightarrow> item list \<Rightarrow> error + stats option" where
  "platform_stats p items =
     (if items = [] then Inr None
      else if p = ''youtube'' then
        (if map (\<lambda>it. metric it ''views'') items \<noteq> []
         then and_then (youtube_stats items) (\<lambda>st. Inr (Some st)) else Inr None)
      else if p = ''reddit'' then
        (if map (\<lambda>it. metric it ''upvotes'') items \<noteq> []
         then and_then (reddit_stats items) (\<lambda>st. Inr (Some st)) else Inr None)
      else if p = ''google_news'' then and_then (news_stats items) (\<lambda>st. Inr (Some st))
      else Inr None)"

fun analyze_engagement :: "dataset \<Rightarrow> error + (string \<times> stats) list" where
  "analyze_engagement [] = Inr []"
| "analyze_engagement ((p, items) # rest) =
     and_then (platform_stats p items) (\<lambda>entry.
     and_then (analyze_engagement rest) (\<lambda>engagement_stats.
       Inr (case entry of
              None \<Rightarrow> engagement_stats
            | Some st \<Rightarrow> (p, st) # engagement_stats)))"

section \<open>Keyword performance\<close>

record keyword_stats =
  count :: nat
  total_engagement :: int
  avg_engagement :: int

definition engagement_of :: "string \<Rightarrow> item \<Rightarrow> int" where
  "engagement_of p it =
     (if p = ''youtube'' then metric it ''views''
      else if p = ''reddit'' then metric it ''upvotes''
      else 0)"

text \<open>One pass of the first loop: the group of the keyword gains one item and its engagement.\<close>

fun keyword_add :: "string \<Rightarrow> int \<Rightarrow> (string \<times> nat \<times> int) list \<Rightarrow> (string \<times> nat \<times> int) list" where
  "keyword_add kw e [] = [(kw, 1, e)]"
| "keyword_add kw e ((k, c, t) # r) =
     (if k = kw then (k, Suc c, t + e) # r else (k, c, t) # keyword_add kw e r)"

definition keyword_groups :: "string \<Rightarrow> item list \<Rightarrow> (string \<times> nat \<times> int) list" where
  "keyword_groups p items =
     foldl (\<lambda>acc it. keyword_add (dict_get (keyword it) ''unknown'') (engagement_of p it) acc)
       [] items"

text \<open>The second loop: the average of one keyword.\<close>

definition keyword_entry :: "string \<times> nat \<times> int \<Rightarrow> error + string \<times> keyword_stats" where
  "keyword_entry kct =
     (let kw = fst kct; n = fst (snd kct); total = snd (snd kct)
      in and_then (if 0 < n then and_then (truediv total (int n)) (\<lambda>avg. Inr (py_int avg))
                   else Inr 0) (\<lambda>avg.
           Inr (kw, \<lparr>count = n, total_engagement = total, avg_engagement = avg\<rparr>)))"

fun analyze_keywords ::
  "dataset \<Rightarrow> error + (string \<times> (string \<times> keyword_stats) list) list" where
  "analyze_keywords [] = Inr []"
| "analyze_keywords ((p, items) # rest) =
     (if items = [] then analyze_keywords rest
      else and_then (collect keyword_entry (keyword_groups p items)) (\<lambda>keyword_stats.
           and_then (analyze_keywords rest) (\<lambda>keyword_performance.
             Inr ((p, keyword_stats) # keyword_performance))))"

section \<open>Platform summaries\<close>

subsection \<open>Comparing datetimes\<close>

definition is_leap :: "nat \<Rightarrow> bool" where
  "is_leap y = (y mod 4 = 0 \<and> (y mod 100 \<noteq> 0 \<or> y mod 400 = 0))"

definition days_in_month :: "nat \<Rightarrow> nat \<Rightarrow> nat" where
  "days_in_month y m =
     (if m = 2 then (if is_leap y then 29 else 28)
      else if m = 4 \<or> m = 6 \<or> m = 9 \<or> m = 11 then 30 else 31)"

definition ymd2ord :: "nat \<Rightarrow> nat \<Rightarrow> nat \<Rightarrow> int" where
  "ymd2ord y m d =
     (int y - 1) * 365 + (int y - 1) div 4 - (int y - 1) div 100 + (int y - 1) div 400
     + int (sum_list (map (days_in_month y) [1..<m])) + int d"

definition wall_clock :: "datetime \<Rightarrow> int" where
  "wall_clock dt =
     (((ymd2ord (year dt) (month dt) (day dt) * 24 + int (hour dt)) * 60
        + int (minute dt)) * 60 + int (second dt)) * 1000000 + int (microsecond dt)"

definition instant :: "datetime \<Rightarrow> int" where
  "instant dt = wall_clock dt - dict_get (utcoffset dt) 0"

text \<open>
  \<^verbatim>\<open>a < b\<close> on datetimes: two naive values compare by their fields, two aware values
  by their instants, and a naive value against an aware one raises \<^verbatim>\<open>TypeError\<close>.
\<close>

definition aware :: "datetime \<Rightarrow> bool" where
  "aware dt = (utcoffset dt \<noteq> None)"

definition dt_less :: "datetime \<Rightarrow> datetime \<Rightarrow> error + bool" where
  "dt_less a b =
     (if aware a = aware b then Inr (instant a < instant b) else Inl TypeError)"

fun py_min_from :: "datetime \<Rightarrow> datetime list \<Rightarrow> error + datetime" where
  "py_min_from m [] = Inr m"
| "py_min_from m (x # xs) =
     (case dt_less x m of
        Inl e \<Rightarrow> Inl e
      | Inr b \<Rightarrow> py_min_from (if b then x else m) xs)"

fun py_max_from :: "datetime \<Rightarrow> datetime list \<Rightarrow> error + datetime" where
  "py_max_from m [] = Inr m"
| "py_max_from m (x # xs) =
     (case dt_less m x of
        Inl e \<Rightarrow> Inl e
      | Inr b \<Rightarrow> py_max_from (if b then x else m) xs)"

definition zero_pad :: "nat \<Rightarrow> nat \<Rightarrow> string" where
  "zero_pad w n = replicate (w - length (show_nat n)) CHR ''0'' @ show_nat n"

definition date_str :: "datetime \<Rightarrow> string" where
  "date_str dt =
     zero_pad 4 (year dt) @ ''-'' @ zero_pad 2 (month dt) @ ''-'' @ zero_pad 2 (day dt)"

subsection \<open>The three helpers\<close>

definition parsed_dates :: "pylib \<Rightarrow> item list \<Rightarrow> datetime list" where
  "parsed_dates L items =
     List.map_filter
       (\<lambda>it. let pub_date = dict_get (published_at it) ''''
             in if pub_date \<noteq> '''' then parse_published L pub_date else None)
       items"

definition get_date_range :: "pylib \<Rightarrow> item list \<Rightarrow> error + string" where
  "get_date_range L items =
     (case parsed_dates L items of
        [] \<Rightarrow> Inr ''Unknown''
      | d # ds \<Rightarrow>
          (case py_min_from d ds of
             Inl e \<Rightarrow> Inl e
           | Inr lo \<Rightarrow>
               (case py_max_from d ds of
                  Inl e \<Rightarrow> Inl e
                | Inr hi \<Rightarrow> Inr (date_str lo @ '' to '' @ date_str hi))))"

definition get_top_keywords :: "item list \<Rightarrow> string list" where
  "get_top_keywords items =
     (let keywords = filter (\<lambda>k. k \<noteq> '''') (map (\<lambda>it. dict_get (keyword it) '''') items)
      in if keywords \<noteq> [] then map fst (most_common 5 (counter keywords)) else [])"

text \<open>\<^verbatim>\<open>a in b\<close> on strings.\<close>

definition contains :: "string \<Rightarrow> string \<Rightarrow> bool" where
  "contains sub s = list_ex (\<lambda>i. take (length sub) (drop i s) = sub) [0..<Suc (length s)]"

text \<open>
  The engagement of an item inside \<^verbatim>\<open>_get_engagement_trend\<close>: chosen by the
  \<^verbatim>\<open>platform\<close> field of the first item of the list.
\<close>

definition trend_engagement :: "item \<Rightarrow> item \<Rightarrow> int" where
  "trend_engagement first_item it =
     (if contains ''youtube'' (dict_get (platform first_item) '''') then metric it ''views''
      else if contains ''reddit'' (dict_get (platform first_item) '''') then metric it ''upvotes''
      else 0)"

definition dated_items :: "pylib \<Rightarrow> item list \<Rightarrow> (datetime \<times> int) list" where
  "dated_items L items =
     List.map_filter
       (\<lambda>it. let pub_date = dict_get (published_at it) ''''
             in if pub_date \<noteq> '''' then
                  (case parse_published L pub_date of
                     None \<Rightarrow> None
                   | Some dt \<Rightarrow> Some (dt, trend_engagement (hd items) it))
                else None)
       items"

text \<open>
  \<^verbatim>\<open>list.sort(key=lambda x: x[0])\<close>: stable, ascending; it compares a naive with an aware
  datetime, and raises, exactly when the list holds both kinds.
\<close>

definition sort_by_date :: "(datetime \<times> int) list \<Rightarrow> error + (datetime \<times> int) list" where
  "sort_by_date xs =
     (if \<exists>a \<in> set xs. \<exists>b \<in> set xs. aware (fst a) \<noteq> aware (fst b) then Inl TypeError
      else Inr (sort_key (\<lambda>x. instant (fst x)) xs))"

text \<open>
  The float literals \<^verbatim>\<open>1.2\<close> and \<^verbatim>\<open>0.8\<close> are the binary64 values nearest to \<open>6/5\<close>
  and \<open>4/5\<close>.
\<close>

definition compare_halves :: "int list \<Rightarrow> int list \<Rightarrow> error + string" where
  "compare_halves first_half second_half =
     and_then (mean first_half) (\<lambda>avg_first.
     and_then (mean second_half) (\<lambda>avg_second.
       Inr (if gt_product avg_second avg_first (binary64 (6 / 5)) then ''Increasing''
            else if lt_product avg_second avg_first (binary64 (4 / 5)) then ''Decreasing''
            else ''Stable'')))"

definition get_engagement_trend :: "pylib \<Rightarrow> item list \<Rightarrow> string" where
  "get_engagement_trend L items =
     (if length items < 5 then ''Insufficient data''
      else
        (let dated = dated_items L items
         in if 5 \<le> length dated then
              (case sort_by_date dated of
                 Inl e \<Rightarrow> ''Stable''
               | Inr sorted_items \<Rightarrow>
                   (let mid = length sorted_items div 2;
                        first_half = map snd (take mid sorted_items);
                        second_half = map snd (drop mid sorted_items)
                    in if first_half \<noteq> [] \<and> second_half \<noteq> [] then
                         (case compare_halves first_half second_half of
                            Inl e \<Rightarrow> ''Stable''
                          | Inr trend \<Rightarrow> trend)
                       else ''Stable''))
            else ''Stable''))"

record platform_summary =
  total_items :: nat
  date_range :: string
  top_keywords :: "string list"
  engagement_trend :: string

fun analyze_platforms :: "pylib \<Rightarrow> dataset \<Rightarrow> error + (string \<times> platform_summary) list" where
  "analyze_platforms L [] = Inr []"
| "analyze_platforms L ((p, items) # rest) =
     (if items = [] then analyze_platforms L rest
      else
        (case get_date_range L items of
           Inl e \<Rightarrow> Inl e
         | Inr dr \<Rightarrow>
             (case analyze_platforms L rest of
                Inl e \<Rightarrow> Inl e
              | Inr others \<Rightarrow>
                  Inr ((p, \<lparr>total_items = length items, date_range = dr,
                            top_keywords = get_top_keywords items,
                            engagement_trend = get_engagement_trend L items\<rparr>) # others))))"

section \<open>The analysis as a whole\<close>

record insights =
  best_posting_times :: "(string \<times> posting_times) list"
  viral_content_patterns :: "(string \<times> vval) list"
  engagement_insights :: "(string \<times> stats) list"
  keyword_performance :: "(string \<times> (string \<times> keyword_stats) list) list"
  platform_insights :: "(string \<times> platform_summary) list"

definition empty_insights :: insights where
  "empty_insights =
     \<lparr>best_posting_times = [], viral_content_patterns = [], engagement_insights = [],
      keyword_performance = [], platform_insights = []\<rparr>"

text \<open>
  The body of the \<^verbatim>\<open>try\<close> block of \<^verbatim>\<open>analyze\<close>: the five stages in order. \<open>Inl\<close> is an
  exception that leaves the block.
\<close>

definition analyze_body :: "pylib \<Rightarrow> (nat \<Rightarrow> nat) \<Rightarrow> dataset \<Rightarrow> error + insights" where
  "analyze_body L g d =
     (let times = analyze_posting_times L g 0 d
      in and_then (analyze_viral_patterns d) (\<lambda>viral.
         and_then (analyze_engagement d) (\<lambda>engagement.
         and_then (analyze_keywords d) (\<lambda>keywords.
         and_then (analyze_platforms L d) (\<lambda>platforms.
           Inr \<lparr>best_posting_times = times, viral_content_patterns = viral,
                engagement_insights = engagement, keyword_performance = keywords,
                platform_insights = platforms\<rparr>)))))"

text \<open>
  \<^verbatim>\<open>analyze\<close>: the \<^verbatim>\<open>try\<close> block and its handler \<^verbatim>\<open>except Exception\<close>, which returns the
  all-empty insights. \<open>Inl\<close> would be an exception that reaches the caller.
\<close>

definition analyze :: "pylib \<Rightarrow> (nat \<Rightarrow> nat) \<Rightarrow> dataset \<Rightarrow> error + insights" where
  "analyze L g d =
     (case analyze_body L g d of
        Inr result \<Rightarrow> Inr result
      | Inl e \<Rightarrow> Inr empty_insights)"

section \<open>Recommendations\<close>










section \<open>An instance of the library\<close>

text \<open>
  To run the model on concrete data the library parameter needs a value. The instance
  below reads the timestamps \<^verbatim>\<open>YYYY-MM-DDTHH:MM:SS\<close>, optionally followed by an offset
  \<^verbatim>\<open>+HH:MM\<close> or \<^verbatim>\<open>-HH:MM\<close>, and \<^verbatim>\<open>YYYY-MM-DD HH:MM:SS\<close>, with the results of the Python
  functions there; it rejects every other text, which the Python functions do not always
  do, so it is used only on data written in these shapes. Its \<open>value_counts\<close> lists equal
  counts in the order of first appearance.
\<close>

definition number_of :: "string \<Rightarrow> nat option" where
  "number_of s =
     (if s \<noteq> [] \<and> list_all (\<lambda>c. 48 \<le> (of_char c :: nat) \<and> (of_char c :: nat) \<le> 57) s
      then Some (foldl (\<lambda>a c. 10 * a + (of_char c - 48)) 0 s) else None)"

definition valid_fields :: "nat \<Rightarrow> nat \<Rightarrow> nat \<Rightarrow> nat \<Rightarrow> nat \<Rightarrow> nat \<Rightarrow> bool" where
  "valid_fields y m d h mi sec =
     (1 \<le> y \<and> 1 \<le> m \<and> m \<le> 12 \<and> 1 \<le> d \<and> d \<le> days_in_month y m \<and> h < 24 \<and> mi < 60 \<and> sec < 60)"

definition parse_seconds :: "char \<Rightarrow> string \<Rightarrow> datetime option" where
  "parse_seconds sep s =
     (if length s = 19 \<and> s ! 4 = CHR ''-'' \<and> s ! 7 = CHR ''-'' \<and> s ! 10 = sep
         \<and> s ! 13 = CHR '':'' \<and> s ! 16 = CHR '':''
      then
        Option.bind (number_of (take 4 s)) (\<lambda>y.
        Option.bind (number_of (take 2 (drop 5 s))) (\<lambda>m.
        Option.bind (number_of (take 2 (drop 8 s))) (\<lambda>d.
        Option.bind (number_of (take 2 (drop 11 s))) (\<lambda>h.
        Option.bind (number_of (take 2 (drop 14 s))) (\<lambda>mi.
        Option.bind (number_of (take 2 (drop 17 s))) (\<lambda>sec.
          if valid_fields y m d h mi sec
          then Some \<lparr>year = y, month = m, day = d, hour = h, minute = mi, second = sec,
                     microsecond = 0, utcoffset = None\<rparr>
          else None))))))
      else None)"

definition parse_offset :: "string \<Rightarrow> int option" where
  "parse_offset s =
     (if length s = 6 \<and> (s ! 0 = CHR ''+'' \<or> s ! 0 = CHR ''-'') \<and> s ! 3 = CHR '':''
      then
        Option.bind (number_of (take 2 (drop 1 s))) (\<lambda>oh.
        Option.bind (number_of (take 2 (drop 4 s))) (\<lambda>om.
          if oh < 24 \<and> om < 60
          then Some ((if s ! 0 = CHR ''-'' then - 1 else 1)
                     * (int oh * 3600 + int om * 60) * 1000000)
          else None))
      else None)"

definition iso_seconds :: "string \<Rightarrow> datetime option" where
  "iso_seconds s =
     (if length s = 19 then parse_seconds CHR ''T'' s
      else if length s = 25 then
        Option.bind (parse_seconds CHR ''T'' (take 19 s)) (\<lambda>dt.
        Option.bind (parse_offset (drop 19 s)) (\<lambda>off.
          Some (dt\<lparr>utcoffset := Some off\<rparr>)))
      else None)"

definition stable_value_counts :: "nat list \<Rightarrow> (nat \<times> nat) list" where
  "stable_value_counts hours = sort_key (\<lambda>p. - int (snd p)) (counter hours)"

definition canonical_lib :: pylib where
  "canonical_lib =
     \<lparr>fromisoformat = iso_seconds, strptime = parse_seconds CHR '' '',
      value_counts = stable_value_counts\<rparr>"

definition draws :: "nat \<Rightarrow> nat" where
  "draws k = 7 * k + 3"

text \<open>An item with no field, as \<^verbatim>\<open>{}\<close>.\<close>

definition empty_item :: item where
  "empty_item =
     \<lparr>title = None, url = None, published_at = None, keyword = None, platform = None,
      engagement_metrics = None\<rparr>"

section \<open>Example data\<close>

definition video :: "string \<Rightarrow> string \<Rightarrow> int \<Rightarrow> int \<Rightarrow> item" where
  "video t pub v l =
     \<lparr>title = Some t, url = None, published_at = Some pub, keyword = None, platform = None,
      engagement_metrics = Some [(''views'', v), (''likes'', l)]\<rparr>"

text \<open>
  Two videos of one platform, the first stamped with a trailing \<^verbatim>\<open>Z\<close> (an aware
  datetime), the second without an offset (a naive one).
\<close>

definition mixed_dates :: dataset where
  "mixed_dates =
     [(''youtube'',
       [video ''Launch day'' ''2024-01-15T10:00:00Z'' 100 10,
        video ''Second look'' ''2024-01-16T10:00:00'' 300 30])]"

definition test_data :: dataset where
  "test_data =
     [(''youtube'',
       [\<lparr>title = Some ''Digital Marketing Tutorial'', url = None,
         published_at = Some ''2024-01-15T14:30:00'', keyword = Some ''digital marketing'',
         platform = None, engagement_metrics = Some [(''views'', 10000), (''likes'', 500)]\<rparr>,
        \<lparr>title = Some ''AI Marketing Trends'', url = None,
         published_at = Some ''2024-01-16T10:15:00'', keyword = Some ''AI marketing'',
         platform = None, engagement_metrics = Some [(''views'', 15000), (''likes'', 750)]\<rparr>]),
      (''reddit'',
       [\<lparr>title = Some ''Social Media Discussion'', url = None,
         published_at = Some ''2024-01-14T16:45:00'', keyword = Some ''social media'',
         platform = None, engagement_metrics = Some [(''upvotes'', 250), (''comments'', 45)]\<rparr>])]"

definition metrics_only :: "(string \<times> int) list \<Rightarrow> item" where
  "metrics_only m = empty_item\<lparr>engagement_metrics := Some m\<rparr>"

definition scenario_a :: dataset where
  "scenario_a =
     [(''youtube'',
       [metrics_only [(''views'', 100), (''likes'', 10)],
        metrics_only [(''views'', 300), (''likes'', 30)]])]"

definition scenario_b :: dataset where
  "scenario_b = [(''reddit'', [metrics_only [(''upvotes'', 0), (''comments'', 0)]])]"

definition twitter_data :: dataset where
  "twitter_data =
     [(''twitter'',
       [empty_item\<lparr>title := Some ''Spring sale'',
                    engagement_metrics := Some [(''views'', 100), (''likes'', 10)]\<rparr>])]"

definition news_data :: dataset where
  "news_data =
     [(''google_news'',
       [empty_item\<lparr>title := Some ''Markets rally''\<rparr>,
        empty_item\<lparr>title := Some ''Rates hold'',
                    engagement_metrics := Some [(''views'', 1500)]\<rparr>])]"

text \<open>One video whose view count, \<open>2^53 + 1\<close>, is not a binary64 value.\<close>

definition big_views :: dataset where
  "big_views =
     [(''youtube'', [metrics_only [(''views'', 9007199254740993), (''likes'', 0)]])]"

text \<open>One video with a negative view count.\<close>

definition negative_views :: dataset where
  "negative_views = [(''youtube'', [metrics_only [(''views'', - 100), (''likes'', 10)]])]"


text \<open>\<open>returned m P\<close>: the call \<open>m\<close> returned a value, and \<open>P\<close> holds of it.\<close>

definition returned :: "error + 'a \<Rightarrow> ('a \<Rightarrow> bool) \<Rightarrow> bool" where
  "returned m P = (case m of Inl e \<Rightarrow> False | Inr x \<Rightarrow> P x)"

text \<open>The integer-truncated mean of the specification: the quotient rounded toward zero.\<close>

definition truncated_mean :: "int list \<Rightarrow> int" where
  "truncated_mean xs =
     (if 0 \<le> sum_list xs then sum_list xs div int (length xs)
      else - ((- sum_list xs) div int (length xs)))"

subsection \<open>The rules as the specification words them\<close>






subsection \<open>The viral-pattern block as the specification words it\<close>


definition first_seen :: "'a list \<Rightarrow> 'a list" where
  "first_seen ws = rev (remdups (rev ws))"





subsection \<open>Posting times as the specification words them\<close>

text \<open>
  A record has a timestamp when \<^verbatim>\<open>published_at\<close> is present and not empty; it is
  unparsable when it has one that the library rejects. \<open>record_hours\<close> is what one record
  adds to the hours of its platform, \<open>r\<close> being the entropy that a random hour would use.
\<close>

definition has_timestamp :: "item \<Rightarrow> bool" where
  "has_timestamp it = (dict_get (published_at it) [] \<noteq> [])"

definition unparsable :: "pylib \<Rightarrow> item \<Rightarrow> bool" where
  "unparsable L it =
     (has_timestamp it \<and> parse_published L (dict_get (published_at it) []) = None)"

definition record_hours :: "pylib \<Rightarrow> nat \<Rightarrow> item \<Rightarrow> nat list" where
  "record_hours L r it =
     (if has_timestamp it then
        (case parse_published L (dict_get (published_at it) []) of
           Some dt \<Rightarrow> [hour dt]
         | None \<Rightarrow> [randint 9 17 r])
      else [])"

text \<open>
  What the analysis relies on from \<^verbatim>\<open>value_counts\<close>: one row for each distinct value, with
  the number of its occurrences, the rows in descending order of that number. The order
  of rows of equal count is left to the library.
\<close>

definition value_counts_ok :: "pylib \<Rightarrow> nat list \<Rightarrow> bool" where
  "value_counts_ok L hours =
     (let rows = value_counts L hours
      in distinct (map fst rows) \<and> set (map fst rows) = set hours
         \<and> list_all (\<lambda>r. snd r = count_list hours (fst r)) rows
         \<and> sorted_wrt (\<lambda>a b. snd b \<le> snd a) rows)"

text \<open>
  The peak hours of the specification: the three most frequent hours, of two hours of
  equal count the smaller first, the three then in ascending order.
\<close>

definition peak_hours_spec :: "nat list \<Rightarrow> nat list" where
  "peak_hours_spec hours =
     sort (take 3 (sort_key (\<lambda>h. - int (count_list hours h)) (sort (remdups hours))))"



definition tie_hours :: dataset where
  "tie_hours =
     [(''blog'',
       [empty_item\<lparr>published_at := Some ''2024-01-15 15:00:00''\<rparr>,
        empty_item\<lparr>published_at := Some ''2024-01-15 14:00:00''\<rparr>,
        empty_item\<lparr>published_at := Some ''2024-01-15 13:00:00''\<rparr>,
        empty_item\<lparr>published_at := Some ''2024-01-15 09:00:00''\<rparr>])]"

text \<open>A dataset whose one platform has no record and the name of a key of the viral block.\<close>

definition named_like_key :: dataset where
  "named_like_key = [(''emotional_triggers'', [])]"

chapter \<open>Properties\<close>

section \<open>Binary64 division\<close>

lemma two_to_eq: "two_to n = 2 ^ nat n"
proof (induction n rule: two_to.induct)
  case (1 n)
  show ?case
  proof (cases "n \<le> 0")
    case True
    then show ?thesis by (simp add: two_to.simps [of n])
  next
    case False
    then have "nat n = Suc (nat (n - 1))" by simp
    then show ?thesis using False 1 by (simp add: two_to.simps [of n])
  qed
qed

lemma pow2_powi: "pow2 e = 2 powi e"
  by (simp add: pow2_def two_to_eq power_int_def field_simps)

lemma pow2_pos [simp]: "0 < pow2 e"
  by (simp add: pow2_powi zero_less_power_int)

lemma pow2_nonneg [simp]: "0 \<le> pow2 e"
  using pow2_pos [of e] by (simp only: less_imp_le)

lemma pow2_add: "pow2 (m + n) = pow2 m * pow2 n"
  by (simp add: pow2_powi power_int_add)

lemma pow2_diff: "pow2 (m - n) = pow2 m / pow2 n"
  by (simp add: pow2_powi power_int_diff)

lemma pow2_mono: "m \<le> n \<Longrightarrow> pow2 m \<le> pow2 n"
  by (simp add: pow2_powi power_int_increasing)

lemma pow2_less_iff: "pow2 m < pow2 n \<longleftrightarrow> m < n"
  by (metis pow2_powi power_int_strict_increasing pow2_mono not_less one_less_numeral_iff
      semiring_norm(76))

lemma pow2_nat: "0 \<le> e \<Longrightarrow> pow2 e = of_int (2 ^ nat e)"
  by (simp add: pow2_def two_to_eq)

lemma bit_length_nonneg: "0 \<le> bit_length n"
  by (induction n rule: bit_length.induct) (simp add: bit_length.simps)

lemma bit_length_pos: "0 < n \<Longrightarrow> 0 < bit_length n"
  using bit_length_nonneg [of "n div 2"] by (simp add: bit_length.simps [of n])

lemma bit_length_bounds:
  "0 < n \<Longrightarrow> 2 ^ nat (bit_length n - 1) \<le> n \<and> n < 2 ^ nat (bit_length n)"
proof (induction n rule: bit_length.induct)
  case (1 n)
  show ?case
  proof (cases "n = 1")
    case True
    have "bit_length 1 = 1" by (simp add: bit_length.simps [of 1] bit_length.simps [of 0])
    then show ?thesis using True by simp
  next
    case False
    with 1 have h: "0 < n div 2" by simp
    let ?b = "bit_length (n div 2)"
    have b: "0 < ?b" using bit_length_pos [OF h] .
    have IH: "2 ^ nat (?b - 1) \<le> n div 2" "n div 2 < 2 ^ nat ?b"
      using 1 h by simp_all
    have bl: "bit_length n = 1 + ?b" using 1(2) by (simp add: bit_length.simps [of n])
    have s: "nat ?b = Suc (nat (?b - 1))" using b by simp
    have "(2::int) ^ nat ?b = 2 * 2 ^ nat (?b - 1)" by (subst s) simp
    also have "\<dots> \<le> 2 * (n div 2)" using IH(1) by simp
    also have "\<dots> \<le> n" by simp
    finally have lo: "(2::int) ^ nat ?b \<le> n" .
    have "n < 2 * (n div 2 + 1)" by simp
    also have "\<dots> \<le> 2 * 2 ^ nat ?b" using IH(2) by simp
    also have "\<dots> = 2 ^ nat (1 + ?b)" using b by (simp add: nat_add_distrib)
    finally have hi: "n < 2 ^ nat (1 + ?b)" .
    show ?thesis using lo hi by (simp add: bl)
  qed
qed

lemma bit_length_pow2:
  assumes "0 < n"
  shows "pow2 (bit_length n - 1) \<le> of_int n" and "of_int n < pow2 (bit_length n)"
proof -
  have b: "0 < bit_length n" using bit_length_pos [OF assms] .
  have "of_int (2 ^ nat (bit_length n - 1)) \<le> (of_int n :: rat)"
    using bit_length_bounds [OF assms] by (subst of_int_le_iff) simp
  then show "pow2 (bit_length n - 1) \<le> of_int n" using b by (simp add: pow2_nat)
  have "(of_int n :: rat) < of_int (2 ^ nat (bit_length n))"
    using bit_length_bounds [OF assms] by (subst of_int_less_iff) simp
  then show "of_int n < pow2 (bit_length n)" using b by (simp add: pow2_nat)
qed

lemma exponent_bounds:
  assumes "0 < q"
  shows "pow2 (exponent q) \<le> q" and "q < pow2 (exponent q + 1)"
proof -
  obtain a b where ab: "quotient_of q = (a, b)" by (cases "quotient_of q")
  have b: "0 < b" using quotient_of_denom_pos [OF ab] .
  have q: "q = of_int a / of_int b" using quotient_of_div [OF ab] .
  have a: "0 < a" using assms b unfolding q by (simp add: zero_less_divide_iff)
  let ?e = "bit_length a - bit_length b"
  have lo: "pow2 (?e - 1) \<le> q"
  proof -
    have "pow2 (?e - 1) = pow2 (bit_length a - 1) / pow2 (bit_length b)"
      by (simp add: pow2_diff [symmetric] algebra_simps)
    also have "\<dots> \<le> of_int a / pow2 (bit_length b)"
      using bit_length_pow2(1) [OF a] by (intro divide_right_mono) (simp_all add: less_imp_le)
    also have "\<dots> \<le> of_int a / of_int b"
      using bit_length_pow2(2) [OF b] a b by (intro divide_left_mono) simp_all
    finally show ?thesis unfolding q .
  qed
  have hi: "q < pow2 (?e + 1)"
  proof -
    have "q < pow2 (bit_length a) / of_int b"
      unfolding q using bit_length_pow2(2) [OF a] b by (intro divide_strict_right_mono) simp_all
    also have "\<dots> \<le> pow2 (bit_length a) / pow2 (bit_length b - 1)"
      using bit_length_pow2(1) [OF b] b by (intro divide_left_mono) simp_all
    also have "\<dots> = pow2 (?e + 1)"
      by (simp add: pow2_diff [symmetric] algebra_simps)
    finally show ?thesis .
  qed
  show "pow2 (exponent q) \<le> q"
    using lo by (simp add: exponent_def ab Let_def)
  show "q < pow2 (exponent q + 1)"
    using hi by (auto simp: exponent_def ab Let_def not_le)
qed


lemma round_half_even_ge: "of_int j \<le> x \<Longrightarrow> j \<le> round_half_even x"
proof -
  assume "of_int j \<le> x"
  then have "j \<le> \<lfloor>x\<rfloor>" by (simp add: le_floor_iff)
  then show ?thesis by (simp add: round_half_even_def Let_def)
qed

lemma round_half_even_bounds:
  "of_int (round_half_even x) \<le> x + 1 / 2" "x - 1 / 2 \<le> of_int (round_half_even x)"
proof -
  define f where "f = \<lfloor>x\<rfloor>"
  have f: "of_int f \<le> x" "x < of_int f + 1" unfolding f_def by linarith+
  show "of_int (round_half_even x) \<le> x + 1 / 2"
    unfolding round_half_even_def Let_def f_def [symmetric] using f by (auto; linarith)
  show "x - 1 / 2 \<le> of_int (round_half_even x)"
    unfolding round_half_even_def Let_def f_def [symmetric] using f by (auto; linarith)
qed

lemma round_half_even_of_int [simp]: "round_half_even (of_int j) = j"
  by (simp add: round_half_even_def)

lemma binary64_minus: "binary64 (- q) = - binary64 q"
  by (simp add: binary64_def Let_def)

lemma binary64_nonneg: "0 \<le> q \<Longrightarrow> 0 \<le> binary64 q"
proof -
  assume q: "0 \<le> q"
  have "0 \<le> round_half_even (\<bar>q\<bar> / pow2 e)" for e
    by (rule round_half_even_ge) simp
  then show ?thesis using q by (simp add: binary64_def Let_def)
qed

lemma exceeds_float_iff: "exceeds_float r \<longleftrightarrow> pow2 1024 \<le> \<bar>r\<bar>"
proof -
  let ?j = "\<lfloor>\<bar>r\<bar>\<rfloor>"
  have p: "pow2 1024 = of_int (2 ^ 1024)" by (simp add: pow2_nat)
  have j0: "0 \<le> ?j" by simp
  show ?thesis
  proof (cases "?j = 0")
    case True
    then have "\<bar>r\<bar> < 1" by (metis floor_less_one abs_ge_zero zero_le_floor less_numeral_extra(1) floor_less_iff of_int_1)
    moreover have "(1::rat) \<le> pow2 1024" using pow2_mono [of 0 1024] by (simp add: pow2_def two_to.simps [of 0])
    ultimately show ?thesis using True by (simp add: exceeds_float_def bit_length.simps [of 0])
  next
    case False
    then have j: "0 < ?j" using j0 by linarith
    note b = bit_length_bounds [OF j]
    show ?thesis
    proof (cases "1024 < bit_length ?j")
      case True
      then have "(2::int) ^ 1024 \<le> 2 ^ nat (bit_length ?j - 1)"
        by (intro power_increasing) simp_all
      then have "2 ^ 1024 \<le> ?j" using b by linarith
      then have "of_int (2 ^ 1024) \<le> \<bar>r\<bar>" by (simp only: le_floor_iff)
      then show ?thesis using True by (simp add: exceeds_float_def p)
    next
      case False
      then have "(2::int) ^ nat (bit_length ?j) \<le> 2 ^ 1024"
        by (intro power_increasing) simp_all
      then have "?j < 2 ^ 1024" using b by linarith
      then have "\<bar>r\<bar> < of_int (2 ^ 1024)" by (simp only: floor_less_iff)
      then show ?thesis using False by (simp add: exceeds_float_def p)
    qed
  qed
qed

lemma binary64_quotient:
  fixes a n :: int
  assumes a: "0 < a" "a < 2 ^ 53" and n: "0 < n" "n < 2 ^ 53"
  shows "of_int (a div n) \<le> binary64 (of_int a / of_int n)"
    and "binary64 (of_int a / of_int n) < of_int (a div n) + 1"
    and "a mod n \<noteq> 0 \<Longrightarrow> of_int (a div n) < binary64 (of_int a / of_int n)"
    and "a mod n = 0 \<Longrightarrow> binary64 (of_int a / of_int n) = of_int (a div n)"
proof -
  define q :: rat where "q = of_int a / of_int n"
  define ec where "ec = max (exponent q) (- 1022)"
  define m where "m = a div n"
  define Ni :: int where "Ni = 2 ^ nat (52 - ec)"
  define k where "k = round_half_even (q * of_int Ni)"
  have q0: "0 < q" using a n by (simp add: q_def)
  have qn: "q * of_int n = of_int a" using n by (simp add: q_def)
  have p53: "pow2 53 = of_int (2 ^ 53)" by (simp add: pow2_nat)
  have "q \<le> of_int a"
  proof -
    have "of_int a / of_int n \<le> (of_int a :: rat) / 1"
      using a n by (intro divide_left_mono) simp_all
    then show ?thesis by (simp add: q_def)
  qed
  then have q53: "q < pow2 53" using a(2) unfolding p53
    by (metis le_less_trans of_int_less_iff)
  have "pow2 (exponent q) < pow2 53" using exponent_bounds(1) [OF q0] q53 by simp
  then have "exponent q < 53" by (simp only: pow2_less_iff)
  then have ec52: "ec \<le> 52" by (simp add: ec_def)
  have N: "pow2 (52 - ec) = of_int Ni" using ec52 by (simp add: pow2_nat Ni_def)
  have Ni0: "0 < Ni" by (simp add: Ni_def)
  have uN: "pow2 (ec - 52) * of_int Ni = 1"
    unfolding N [symmetric] pow2_add [symmetric] by (simp add: pow2_def two_to.simps [of 0])
  have u: "pow2 (ec - 52) = 1 / of_int Ni" using uN Ni0 by (simp add: field_simps)
  have r: "binary64 q = of_int k / of_int Ni"
    using q0 by (simp add: binary64_def Let_def ec_def [symmetric] u k_def)
  have mq: "of_int m \<le> q"
  proof -
    have "\<lfloor>q\<rfloor> = m" unfolding q_def m_def by (rule floor_divide_of_int_eq)
    then show ?thesis by (metis of_int_floor_le)
  qed
  have "of_int (m * Ni) \<le> q * of_int Ni" using mq Ni0 by simp
  then have "m * Ni \<le> k" unfolding k_def by (rule round_half_even_ge)
  then have "(of_int (m * Ni) :: rat) \<le> of_int k" by (simp only: of_int_le_iff)
  then have lo: "of_int m \<le> binary64 q" using Ni0 by (simp add: r field_simps)
  have "a < n * (m + 1)"
  proof -
    have "a = n * m + a mod n" by (simp add: m_def)
    moreover have "a mod n < n" using n by simp
    ultimately show ?thesis by (simp add: algebra_simps)
  qed
  then have "a + 1 \<le> n * (m + 1)" by simp
  then have "(of_int (a + 1) :: rat) \<le> of_int (n * (m + 1))" by (simp only: of_int_le_iff)
  then have gap: "q * of_int n + 1 \<le> of_int n * (of_int m + 1)"
    by (simp add: qn)
  have "of_int n * pow2 ec < pow2 53"
  proof (cases "exponent q \<le> - 1022")
    case True
    then have "ec = - 1022" by (simp add: ec_def)
    then have "pow2 ec \<le> pow2 0" by (intro pow2_mono) simp
    then have "pow2 ec \<le> 1" by (simp add: pow2_def two_to.simps [of 0])
    then have "of_int n * pow2 ec \<le> of_int n * 1" using n by (intro mult_left_mono) simp_all
    moreover have "(of_int n :: rat) < pow2 53" using n(2) unfolding p53 by (simp only: of_int_less_iff)
    ultimately show ?thesis by simp
  next
    case False
    then have "ec = exponent q" by (simp add: ec_def)
    then have "pow2 ec \<le> q" using exponent_bounds(1) [OF q0] by simp
    then have "of_int n * pow2 ec \<le> of_int n * q" using n by (intro mult_left_mono) simp_all
    also have "\<dots> = of_int a" using qn by (simp add: mult.commute)
    also have "\<dots> < pow2 53" using a(2) unfolding p53 by (simp only: of_int_less_iff)
    finally show ?thesis .
  qed
  moreover have "pow2 53 = 2 * of_int Ni * pow2 ec"
  proof -
    have "pow2 53 = pow2 (1 + (52 - ec) + ec)" by simp
    also have "\<dots> = pow2 1 * pow2 (52 - ec) * pow2 ec" by (simp only: pow2_add)
    also have "pow2 1 = 2" by (simp add: pow2_def two_to.simps [of 1] two_to.simps [of 0])
    finally show ?thesis by (simp add: N)
  qed
  ultimately have "of_int n * pow2 ec < 2 * of_int Ni * pow2 ec" by simp
  then have n2: "(of_int n :: rat) < 2 * of_int Ni" by simp
  have "of_int k \<le> q * of_int Ni + 1 / 2" unfolding k_def by (rule round_half_even_bounds(1))
  moreover have "q * of_int Ni + 1 / 2 < (of_int m + 1) * of_int Ni"
  proof -
    have "(q * of_int Ni + 1 / 2) * of_int n = q * of_int n * of_int Ni + of_int n / 2"
      by (simp add: algebra_simps)
    also have "\<dots> < q * of_int n * of_int Ni + of_int Ni" using n2 by simp
    also have "\<dots> = (q * of_int n + 1) * of_int Ni" by (simp add: algebra_simps)
    also have "\<dots> \<le> (of_int n * (of_int m + 1)) * of_int Ni"
      using gap Ni0 by (intro mult_right_mono) simp_all
    also have "\<dots> = ((of_int m + 1) * of_int Ni) * of_int n" by (simp add: algebra_simps)
    finally show ?thesis using n(1) by (simp only: mult_less_cancel_right_pos of_int_0_less_iff)
  qed
  ultimately have "(of_int k :: rat) < (of_int m + 1) * of_int Ni" by simp
  then have hi: "binary64 q < of_int m + 1" using Ni0 by (simp add: r field_simps)
  show "of_int (a div n) \<le> binary64 (of_int a / of_int n)"
    using lo by (simp add: q_def m_def)
  show "binary64 (of_int a / of_int n) < of_int (a div n) + 1"
    using hi by (simp add: q_def m_def)
  show "of_int (a div n) < binary64 (of_int a / of_int n)" if "a mod n \<noteq> 0"
  proof -
    have "0 \<le> a mod n" using n by simp
    then have "1 \<le> a mod n" using that by linarith
    moreover have "a = n * m + a mod n" by (simp add: m_def)
    ultimately have "n * m + 1 \<le> a" by linarith
    then have "(of_int (n * m + 1) :: rat) \<le> of_int a" by (simp only: of_int_le_iff)
    then have gap': "of_int n * of_int m + 1 \<le> q * of_int n" by (simp add: qn)
    have "(of_int m * of_int Ni) * of_int n = (of_int n * of_int m) * (of_int Ni :: rat)"
      by (simp add: algebra_simps)
    also have "\<dots> \<le> (q * of_int n - 1) * of_int Ni"
      using gap' Ni0 by (intro mult_right_mono) simp_all
    also have "\<dots> = q * of_int Ni * of_int n - of_int Ni" by (simp add: algebra_simps)
    also have "\<dots> < q * of_int Ni * of_int n - of_int n / 2" using n2 by simp
    also have "\<dots> = (q * of_int Ni - 1 / 2) * of_int n" by (simp add: algebra_simps)
    finally have "of_int m * of_int Ni < q * of_int Ni - 1 / 2"
      using n(1) by (simp only: mult_less_cancel_right_pos of_int_0_less_iff)
    moreover have "q * of_int Ni - 1 / 2 \<le> of_int k"
      unfolding k_def by (rule round_half_even_bounds(2))
    ultimately have "of_int m * of_int Ni < (of_int k :: rat)" by simp
    then have "of_int m < binary64 q" using Ni0 by (simp add: r field_simps)
    then show ?thesis by (simp add: q_def m_def)
  qed
  show "binary64 (of_int a / of_int n) = of_int (a div n)" if "a mod n = 0"
  proof -
    have "a = n * m" using that div_mult_mod_eq [of a n] by (simp add: m_def mult.commute)
    then have "q = of_int m" using n by (simp add: q_def)
    then have "k = m * Ni" by (simp add: k_def flip: of_int_mult)
    then have "binary64 q = of_int m" using Ni0 by (simp add: r)
    then show ?thesis by (simp add: q_def m_def)
  qed
qed

lemma binary64_compare_pos:
  fixes a n v :: int
  assumes a: "0 < a" "a < 2 ^ 53" and n: "0 < n" "n < 2 ^ 53"
  shows "(binary64 (of_int a / of_int n) < of_int v) = ((of_int a / of_int n :: rat) < of_int v)"
    and "(of_int v < binary64 (of_int a / of_int n)) = ((of_int v :: rat) < of_int a / of_int n)"
proof -
  define q :: rat where "q = of_int a / of_int n"
  define r where "r = binary64 q"
  define m where "m = a div n"
  note b = binary64_quotient [OF a n, folded q_def r_def m_def]
  have fl: "\<lfloor>q\<rfloor> = m" unfolding q_def m_def by (rule floor_divide_of_int_eq)
  have qlo: "of_int m \<le> q" using fl by (metis of_int_floor_le)
  have "q < of_int \<lfloor>q\<rfloor> + 1" by linarith
  then have qhi: "q < of_int m + 1" by (simp only: fl)
  have qn: "q * of_int n = of_int a" using n by (simp add: q_def)
  have strict: "(of_int m < r) = (of_int m < q)"
  proof (cases "a mod n = 0")
    case True
    then have "a = n * m" using div_mult_mod_eq [of a n] by (simp add: m_def mult.commute)
    then have "q = of_int m" using n by (simp add: q_def)
    then show ?thesis using b(4) [OF True] by simp
  next
    case False
    have "q \<noteq> of_int m"
    proof
      assume "q = of_int m"
      then have "(of_int a :: rat) = of_int (m * n)" using qn by simp
      then have "a = m * n" by (simp only: of_int_eq_iff)
      then show False using False by simp
    qed
    then show ?thesis using b(3) [OF False] qlo by simp
  qed
  have cases: "v \<le> m - 1 \<or> v = m \<or> m + 1 \<le> v" by linarith
  have c1: "(of_int v :: rat) \<le> of_int m - 1" if "v \<le> m - 1"
    using that by (metis of_int_le_iff of_int_diff of_int_1)
  have c3: "(of_int m :: rat) + 1 \<le> of_int v" if "m + 1 \<le> v"
    using that by (metis of_int_le_iff of_int_add of_int_1)
  show "(binary64 (of_int a / of_int n) < of_int v) = ((of_int a / of_int n :: rat) < of_int v)"
    unfolding q_def [symmetric] r_def [symmetric]
    using cases c1 c3 b(1,2) qlo qhi strict by (elim disjE) (simp; linarith)+
  show "(of_int v < binary64 (of_int a / of_int n)) = ((of_int v :: rat) < of_int a / of_int n)"
    unfolding q_def [symmetric] r_def [symmetric]
    using cases c1 c3 b(1,2) qlo qhi strict by (elim disjE) (simp; linarith)+
qed

lemma binary64_compare:
  fixes a n v :: int
  assumes a: "\<bar>a\<bar> < 2 ^ 53" and n: "0 < n" "n < 2 ^ 53"
  shows "(binary64 (of_int a / of_int n) < of_int v) = ((of_int a / of_int n :: rat) < of_int v)"
    and "(of_int v < binary64 (of_int a / of_int n)) = ((of_int v :: rat) < of_int a / of_int n)"
proof -
  consider "a = 0" | "0 < a" | "a < 0" by linarith
  then have "(binary64 (of_int a / of_int n) < of_int v) = ((of_int a / of_int n :: rat) < of_int v)
     \<and> (of_int v < binary64 (of_int a / of_int n)) = ((of_int v :: rat) < of_int a / of_int n)"
  proof cases
    case 1
    then show ?thesis by (simp add: binary64_def)
  next
    case 2
    then show ?thesis using binary64_compare_pos [OF 2 _ n, of v] a by simp
  next
    case 3
    then have pos: "0 < - a" "- a < 2 ^ 53" using a by simp_all
    have neg: "(of_int a / of_int n :: rat) = - (of_int (- a) / of_int n)" by simp
    show ?thesis
      unfolding neg binary64_minus
      using binary64_compare_pos [OF pos n, of "- v"] by (simp add: minus_less_iff less_minus_iff)
  qed
  then show "(binary64 (of_int a / of_int n) < of_int v) = ((of_int a / of_int n :: rat) < of_int v)"
    and "(of_int v < binary64 (of_int a / of_int n)) = ((of_int v :: rat) < of_int a / of_int n)"
    by simp_all
qed

lemma py_int_binary64:
  fixes a n :: int
  assumes "\<bar>a\<bar> < 2 ^ 53" and "0 < n" and "n < 2 ^ 53"
  shows "py_int (binary64 (of_int a / of_int n)) = py_int (of_int a / of_int n)"
proof -
  define q :: rat where "q = of_int a / of_int n"
  note c = binary64_compare [OF assms, folded q_def]
  have sg: "(0 \<le> binary64 q) = (0 \<le> q)" using c(1) [of 0] by (simp add: not_less [symmetric])
  have "\<lfloor>binary64 q\<rfloor> = \<lfloor>q\<rfloor>"
  proof (rule floor_unique)
    have "\<not> q < of_int \<lfloor>q\<rfloor>" by (simp add: not_less)
    then have "\<not> binary64 q < of_int \<lfloor>q\<rfloor>" using c(1) [of "\<lfloor>q\<rfloor>"] by blast
    then show "of_int \<lfloor>q\<rfloor> \<le> binary64 q" by (simp only: not_less)
    have "q < of_int (\<lfloor>q\<rfloor> + 1)" by linarith
    then have "binary64 q < of_int (\<lfloor>q\<rfloor> + 1)" by (simp only: c(1))
    then show "binary64 q < of_int \<lfloor>q\<rfloor> + 1" by simp
  qed
  moreover have "\<lceil>binary64 q\<rceil> = \<lceil>q\<rceil>"
  proof (rule ceiling_unique)
    have "of_int (\<lceil>q\<rceil> - 1) < q" by linarith
    then have "of_int (\<lceil>q\<rceil> - 1) < binary64 q" by (simp only: c(2))
    then show "of_int \<lceil>q\<rceil> - 1 < binary64 q" by simp
    have "\<not> of_int \<lceil>q\<rceil> < q" by (simp add: not_less)
    then have "\<not> of_int \<lceil>q\<rceil> < binary64 q" using c(2) [of "\<lceil>q\<rceil>"] by blast
    then show "binary64 q \<le> of_int \<lceil>q\<rceil>" by (simp only: not_less)
  qed
  ultimately show ?thesis unfolding q_def [symmetric] by (simp add: py_int_def sg)
qed

lemma truediv_bounded:
  fixes a n :: int
  assumes "\<bar>a\<bar> < 2 ^ 53" and "0 < n" and "n < 2 ^ 53"
  shows "truediv a n = Inr (binary64 (of_int a / of_int n))"
proof -
  define q :: rat where "q = of_int a / of_int n"
  note c = binary64_compare [OF assms, folded q_def]
  have "\<bar>q\<bar> \<le> \<bar>of_int a\<bar>"
  proof -
    have "\<bar>of_int a\<bar> / \<bar>of_int n :: rat\<bar> \<le> \<bar>of_int a\<bar> / 1"
      using assms(2) by (intro divide_left_mono) simp_all
    then show ?thesis by (simp add: q_def)
  qed
  moreover have "\<bar>of_int a :: rat\<bar> < of_int (2 ^ 53)"
    using assms(1) by (metis of_int_abs of_int_less_iff)
  ultimately have "q < of_int (2 ^ 53)" "of_int (- (2 ^ 53)) < q" by simp_all
  then have "binary64 q < of_int (2 ^ 53)" "of_int (- (2 ^ 53)) < binary64 q"
    by (simp_all only: c)
  then have "\<bar>binary64 q\<bar> < pow2 53" by (simp add: pow2_nat abs_less_iff)
  also have "pow2 53 \<le> pow2 1024" by (rule pow2_mono) simp
  finally have "\<not> exceeds_float (binary64 q)" by (simp add: exceeds_float_iff)
  then show ?thesis using assms(2) by (simp add: truediv_def Let_def q_def)
qed

lemma truediv_faults: "truediv a b = Inl e \<Longrightarrow> (b = 0 \<and> e = ZeroDivisionError) \<or> (b \<noteq> 0 \<and> e = OverflowError)"
  by (auto simp: truediv_def Let_def split: if_splits)

section \<open>Engagement aggregation: properties\<close>

lemma and_then_Inl [simp]: "and_then (Inl e) f = Inl e"
  by (simp add: and_then_def)

lemma and_then_Inr [simp]: "and_then (Inr x) f = f x"
  by (simp add: and_then_def)

lemma and_then_eq_Inr:
  "and_then m f = Inr y \<longleftrightarrow> (\<exists>x. m = Inr x \<and> f x = Inr y)"
  by (cases m) simp_all

lemma and_then_eq_Inl:
  "and_then m f = Inl e \<longleftrightarrow> m = Inl e \<or> (\<exists>x. m = Inr x \<and> f x = Inl e)"
  by (cases m) simp_all

lemma truediv_Inr: "truediv a b = Inr r \<Longrightarrow> r = binary64 (of_int a / of_int b) \<and> b \<noteq> 0"
  by (auto simp: truediv_def Let_def split: if_splits)

lemma py_int_quotient:
  assumes "0 < n"
  shows "py_int (of_int a / of_int n) = (if 0 \<le> a then a div n else - ((- a) div n))"
proof -
  have pos: "(0::rat) < of_int n" using assms by simp
  show ?thesis
  proof (cases "0 \<le> a")
    case True
    then have "(0::rat) \<le> of_int a / of_int n" using pos by simp
    moreover have "\<lfloor>(of_int a :: rat) / of_int n\<rfloor> = a div n"
      by (rule floor_divide_of_int_eq)
    ultimately show ?thesis using True unfolding py_int_def by simp
  next
    case False
    then have "(of_int a :: rat) / of_int n < 0" using pos by (simp add: divide_neg_pos)
    moreover have "\<lfloor>(of_int (- a) :: rat) / of_int n\<rfloor> = (- a) div n"
      by (rule floor_divide_of_int_eq)
    then have "\<lceil>(of_int a :: rat) / of_int n\<rceil> = - ((- a) div n)"
      unfolding ceiling_def by simp
    ultimately show ?thesis using False unfolding py_int_def by simp
  qed
qed

lemma mean_bounded:
  assumes "xs \<noteq> []" and "\<bar>sum_list xs\<bar> < 2 ^ 53" and "int (length xs) < 2 ^ 53"
  shows "\<exists>q. mean xs = Inr q \<and> py_int q = truncated_mean xs"
proof -
  have n: "0 < int (length xs)" using assms(1) by simp
  have "mean xs = Inr (binary64 (of_int (sum_list xs) / of_int (int (length xs))))"
    unfolding mean_def by (rule truediv_bounded [OF assms(2) n assms(3)])
  moreover have "py_int (binary64 (of_int (sum_list xs) / of_int (int (length xs))))
                 = truncated_mean xs"
    unfolding py_int_binary64 [OF assms(2) n assms(3)] py_int_quotient [OF n]
    by (simp add: truncated_mean_def)
  ultimately show ?thesis by simp
qed

lemma mean_fault: "xs \<noteq> [] \<Longrightarrow> mean xs = Inl e \<Longrightarrow> e = OverflowError"
  unfolding mean_def by (drule truediv_faults) simp

lemma youtube_stats_fault:
  assumes "items \<noteq> []" and "youtube_stats items = Inl e"
  shows "e = OverflowError"
  using assms
  by (auto simp: youtube_stats_def Let_def and_then_eq_Inl split: if_splits
      dest!: mean_fault [rotated] truediv_faults)

lemma reddit_stats_fault:
  assumes "items \<noteq> []" and "reddit_stats items = Inl e"
  shows "e = OverflowError"
  using assms
  by (auto simp: reddit_stats_def Let_def and_then_eq_Inl split: if_splits
      dest!: mean_fault [rotated] truediv_faults)

lemma news_stats_fault:
  assumes "items \<noteq> []" and "news_stats items = Inl e"
  shows "e = OverflowError"
  using assms
  by (auto simp: news_stats_def and_then_eq_Inl split: if_splits dest!: truediv_faults)

lemma platform_stats_fault: "platform_stats p items = Inl e \<Longrightarrow> e = OverflowError"
  by (auto simp: platform_stats_def and_then_eq_Inl split: if_splits
      dest: youtube_stats_fault [rotated] reddit_stats_fault [rotated] news_stats_fault [rotated])

lemma analyze_engagement_fault: "analyze_engagement d = Inl e \<Longrightarrow> e = OverflowError"
proof (induction d)
  case Nil
  then show ?case by simp
next
  case (Cons a d)
  obtain p items where a: "a = (p, items)" by (cases a)
  show ?case
    using Cons platform_stats_fault [of p items e]
    by (auto simp: a and_then_eq_Inl)
qed

lemma analyze_engagement_keys:
  "analyze_engagement d = Inr es \<Longrightarrow> fst ` set es \<subseteq> fst ` set d"
proof (induction d arbitrary: es)
  case Nil
  then show ?case by simp
next
  case (Cons a d)
  obtain p items where a: "a = (p, items)" by (cases a)
  from Cons.prems obtain entry rest where
    e: "platform_stats p items = Inr entry" and r: "analyze_engagement d = Inr rest"
    and es: "es = (case entry of None \<Rightarrow> rest | Some st \<Rightarrow> (p, st) # rest)"
    by (auto simp: a and_then_eq_Inr)
  show ?case using Cons.IH [OF r] by (cases entry) (auto simp: es a)
qed

lemma analyze_engagement_lookup:
  assumes "distinct (map fst d)" and "map_of d p = Some items"
    and "analyze_engagement d = Inr es"
  shows "platform_stats p items = Inr (map_of es p)"
  using assms
proof (induction d arbitrary: es)
  case Nil
  then show ?case by simp
next
  case (Cons a d)
  obtain q its where a: "a = (q, its)" by (cases a)
  from Cons.prems(3) obtain entry rest where
    e: "platform_stats q its = Inr entry" and r: "analyze_engagement d = Inr rest"
    and es: "es = (case entry of None \<Rightarrow> rest | Some st \<Rightarrow> (q, st) # rest)"
    by (auto simp: a and_then_eq_Inr)
  show ?case
  proof (cases "q = p")
    case True
    with Cons.prems a have "p \<notin> fst ` set d" and its: "its = items" by auto
    then have "p \<notin> fst ` set rest" using analyze_engagement_keys [OF r] by auto
    then have "map_of rest p = None" by (simp add: map_of_eq_None_iff)
    then show ?thesis using e True its by (cases entry) (simp_all add: es)
  next
    case False
    with Cons.prems a have "distinct (map fst d)" "map_of d p = Some items" by auto
    then have "platform_stats p items = Inr (map_of rest p)" using Cons.IH r by blast
    then show ?thesis using False by (cases entry) (simp_all add: es)
  qed
qed

lemma youtube_stats_spec:
  fixes items :: "item list"
  defines "views \<equiv> map (\<lambda>it. metric it ''views'') items"
    and "likes \<equiv> map (\<lambda>it. metric it ''likes'') items"
  assumes "items \<noteq> []" and "\<bar>sum_list views\<bar> < 2 ^ 53" and "\<bar>sum_list likes\<bar> < 2 ^ 53"
    and "int (length items) < 2 ^ 53"
  shows "youtube_stats items =
           Inr [(''avg_views'', of_int (truncated_mean views)),
                (''avg_likes'', of_int (truncated_mean likes)),
                (''view_to_like_ratio'',
                   if 0 < sum_list views
                   then binary64 (of_int (sum_list likes) / of_int (sum_list views)) else 0),
                (''max_views'', of_int (Max (set views))),
                (''min_views'', of_int (Min (set views))),
                (''total_items'', of_nat (length items))]"
proof -
  have ne: "views \<noteq> []" "likes \<noteq> []" using assms(3) by (simp_all add: views_def likes_def)
  have len: "int (length views) < 2 ^ 53" "int (length likes) < 2 ^ 53"
    using assms(6) by (simp_all add: views_def likes_def)
  obtain av where av: "mean views = Inr av" "py_int av = truncated_mean views"
    using mean_bounded [OF ne(1) assms(4) len(1)] by blast
  obtain al where al: "mean likes = Inr al" "py_int al = truncated_mean likes"
    using mean_bounded [OF ne(2) assms(5) len(2)] by blast
  have ratio: "truediv (sum_list likes) (sum_list views)
               = Inr (binary64 (of_int (sum_list likes) / of_int (sum_list views)))"
    if "0 < sum_list views"
    using truediv_bounded [OF assms(5) that] assms(4) that by simp
  show ?thesis
    unfolding youtube_stats_def Let_def views_def [symmetric] likes_def [symmetric]
    using av al ne ratio by simp
qed

section \<open>Failure of a stage\<close>

lemma analyze_returns: "\<exists>ins. analyze L g d = Inr ins"
  by (cases "analyze_body L g d") (simp_all add: analyze_def)





section \<open>Shape of the viral-pattern block\<close>

lemma analyze_body_Inr:
  "analyze_body L g d = Inr ins \<longleftrightarrow>
     (\<exists>viral engagement keywords platforms.
        analyze_viral_patterns d = Inr viral \<and> analyze_engagement d = Inr engagement
        \<and> analyze_keywords d = Inr keywords \<and> analyze_platforms L d = Inr platforms
        \<and> ins = \<lparr>best_posting_times = analyze_posting_times L g 0 d,
                  viral_content_patterns = viral, engagement_insights = engagement,
                  keyword_performance = keywords, platform_insights = platforms\<rparr>)"
  by (auto simp: analyze_body_def Let_def and_then_eq_Inr)

lemma analyze_body_viral:
  "analyze_body L g d = Inr ins \<Longrightarrow> analyze_viral_patterns d = Inr (viral_content_patterns ins)"
  by (auto simp: analyze_body_Inr)

lemma viral_keys:
  "analyze_viral_patterns d = Inr v \<Longrightarrow>
   map fst v =
     [''high_engagement_titles'', ''common_keywords_in_viral'', ''content_length_pattern'',
      ''emotional_triggers'']"
  by (auto simp: analyze_viral_patterns_def patterns_init_def Let_def and_then_eq_Inr
      split: if_splits)

lemma viral_fixed:
  assumes "analyze_viral_patterns d = Inr v"
  shows "map_of v ''content_length_pattern'' = Some VEmptyDict"
    and "map_of v ''emotional_triggers'' = Some (VList [])"
  using assms
  by (auto simp: analyze_viral_patterns_def patterns_init_def Let_def and_then_eq_Inr
      split: if_splits)

text \<open>
  C10. When the \<^verbatim>\<open>try\<close> block of \<open>analyze\<close> completes, the viral-pattern block has
  exactly the four keys below, in this order, and the last two hold the empty mapping and
  the empty sequence whatever the dataset is.
\<close>

theorem viral_block_shape:
  assumes "analyze_body L g d = Inr ins"
  shows "map fst (viral_content_patterns ins) =
           [''high_engagement_titles'', ''common_keywords_in_viral'',
            ''content_length_pattern'', ''emotional_triggers'']
       \<and> map_of (viral_content_patterns ins) ''content_length_pattern'' = Some VEmptyDict
       \<and> map_of (viral_content_patterns ins) ''emotional_triggers'' = Some (VList [])"
  using viral_keys [OF analyze_body_viral [OF assms]] viral_fixed [OF analyze_body_viral [OF assms]]
  by simp

lemma test_data_success:
  "analyze_body canonical_lib draws test_data =
     Inr (projr (analyze_body canonical_lib draws test_data))"
  by code_simp

theorem viral_block_shape_witness:
  "analyze_body canonical_lib draws test_data =
     Inr (projr (analyze_body canonical_lib draws test_data))
   \<and> map fst (viral_content_patterns (projr (analyze_body canonical_lib draws test_data))) =
           [''high_engagement_titles'', ''common_keywords_in_viral'',
            ''content_length_pattern'', ''emotional_triggers'']
   \<and> map_of (viral_content_patterns (projr (analyze_body canonical_lib draws test_data)))
        ''content_length_pattern'' = Some VEmptyDict
   \<and> map_of (viral_content_patterns (projr (analyze_body canonical_lib draws test_data)))
        ''emotional_triggers'' = Some (VList [])"
  using test_data_success viral_block_shape [OF test_data_success] by simp

section \<open>Engagement aggregation: the claims\<close>

lemma no_timestamp_platforms:
  "\<forall>pi \<in> set d. \<forall>it \<in> set (snd pi). published_at it = None
   \<Longrightarrow> \<exists>ps. analyze_platforms L d = Inr ps"
proof (induction d)
  case Nil
  then show ?case by simp
next
  case (Cons a d)
  obtain p items where a: "a = (p, items)" by (cases a)
  have "\<forall>it \<in> set items. published_at it = None" using Cons.prems a by auto
  then have "parsed_dates L items = []"
    by (induction items) (simp_all add: parsed_dates_def List.map_filter_simps dict_get_def)
  then have "get_date_range L items = Inr ''Unknown''" by (simp add: get_date_range_def)
  moreover obtain ps where "analyze_platforms L d = Inr ps" using Cons by auto
  ultimately show ?case by (simp add: a)
qed

lemma engagement_of_analyze:
  assumes "analyze_viral_patterns d = Inr v" and "analyze_engagement d = Inr es"
    and "analyze_keywords d = Inr ks" and "analyze_platforms L d = Inr ps"
  shows "returned (analyze L g d) (\<lambda>ins. engagement_insights ins = es)"
  using assms by (simp add: analyze_def analyze_body_def Let_def returned_def)

lemma scenario_a_value:
  "analyze_engagement scenario_a =
     Inr [(''youtube'',
           [(''avg_views'', 200), (''avg_likes'', 20), (''view_to_like_ratio'', binary64 (1 / 10)),
            (''max_views'', 300), (''min_views'', 100), (''total_items'', 2)])]"
  by code_simp

lemma scenario_b_value:
  "analyze_engagement scenario_b =
     Inr [(''reddit'',
           [(''avg_upvotes'', 0), (''avg_comments'', 0), (''engagement_rate'', 0),
            (''total_items'', 1)])]"
  by code_simp

lemma scenario_a_engagement:
  "returned (analyze L g scenario_a)
     (\<lambda>ins. engagement_insights ins =
        [(''youtube'',
          [(''avg_views'', 200), (''avg_likes'', 20), (''view_to_like_ratio'', binary64 (1 / 10)),
           (''max_views'', 300), (''min_views'', 100), (''total_items'', 2)])])"
proof -
  obtain ps where ps: "analyze_platforms L scenario_a = Inr ps"
    using no_timestamp_platforms [of scenario_a L]
    by (auto simp: scenario_a_def metrics_only_def empty_item_def)
  have v: "analyze_viral_patterns scenario_a = Inr (projr (analyze_viral_patterns scenario_a))"
    by code_simp
  have k: "analyze_keywords scenario_a = Inr (projr (analyze_keywords scenario_a))"
    by code_simp
  show ?thesis by (rule engagement_of_analyze [OF v scenario_a_value k ps])
qed

lemma scenario_b_engagement:
  "returned (analyze L g scenario_b)
     (\<lambda>ins. engagement_insights ins =
        [(''reddit'',
          [(''avg_upvotes'', 0), (''avg_comments'', 0), (''engagement_rate'', 0),
           (''total_items'', 1)])])"
proof -
  obtain ps where ps: "analyze_platforms L scenario_b = Inr ps"
    using no_timestamp_platforms [of scenario_b L]
    by (auto simp: scenario_b_def metrics_only_def empty_item_def)
  have v: "analyze_viral_patterns scenario_b = Inr (projr (analyze_viral_patterns scenario_b))"
    by code_simp
  have k: "analyze_keywords scenario_b = Inr (projr (analyze_keywords scenario_b))"
    by code_simp
  show ?thesis by (rule engagement_of_analyze [OF v scenario_b_value k ps])
qed

lemma returned_mono: "returned m P \<Longrightarrow> (\<And>x. P x \<Longrightarrow> Q x) \<Longrightarrow> returned m Q"
  by (cases m) (simp_all add: returned_def)

text \<open>
  C5 (as amended). For the platform \<^verbatim>\<open>youtube\<close> with at least one record, fewer than
  \<open>2^53\<close> records, and sums of views and of likes of magnitude below \<open>2^53\<close>, a completed
  engagement stage holds for it the integer-truncated means of views and likes, the
  binary64 quotient of the sum of likes by the sum of views when the views sum to more
  than 0 and 0 otherwise, the largest and the smallest view count and the number of
  records. Scenario A and Scenario B of the specification evaluate to the values it names
  (\<^verbatim>\<open>0.1\<close> is the binary64 value nearest to \<open>1/10\<close>), for every library and entropy
  stream, and the engagement stage raises \<^verbatim>\<open>ZeroDivisionError\<close> on no dataset.
\<close>

theorem youtube_engagement:
  fixes d :: dataset and items :: "item list"
  defines "views \<equiv> map (\<lambda>it. metric it ''views'') items"
    and "likes \<equiv> map (\<lambda>it. metric it ''likes'') items"
  assumes "distinct (map fst d)" and "map_of d ''youtube'' = Some items" and "items \<noteq> []"
    and "\<bar>sum_list views\<bar> < 2 ^ 53" and "\<bar>sum_list likes\<bar> < 2 ^ 53"
    and "int (length items) < 2 ^ 53"
    and "analyze_engagement d = Inr es"
  shows "map_of es ''youtube'' =
           Some [(''avg_views'', of_int (truncated_mean views)),
                 (''avg_likes'', of_int (truncated_mean likes)),
                 (''view_to_like_ratio'',
                    if 0 < sum_list views
                    then binary64 (of_int (sum_list likes) / of_int (sum_list views)) else 0),
                 (''max_views'', of_int (Max (set views))),
                 (''min_views'', of_int (Min (set views))),
                 (''total_items'', of_nat (length items))]
       \<and> returned (analyze L g scenario_a)
           (\<lambda>ins. map_of (engagement_insights ins) ''youtube'' =
              Some [(''avg_views'', 200), (''avg_likes'', 20),
                    (''view_to_like_ratio'', binary64 (1 / 10)),
                    (''max_views'', 300), (''min_views'', 100), (''total_items'', 2)])
       \<and> returned (analyze L g scenario_b)
           (\<lambda>ins. map_of (engagement_insights ins) ''reddit'' =
              Some [(''avg_upvotes'', 0), (''avg_comments'', 0), (''engagement_rate'', 0),
                    (''total_items'', 1)])
       \<and> analyze_engagement d' \<noteq> Inl ZeroDivisionError"
proof -
  have l: "platform_stats ''youtube'' items = Inr (map_of es ''youtube'')"
    by (rule analyze_engagement_lookup [OF assms(3,4,9)])
  have p: "platform_stats ''youtube'' items = and_then (youtube_stats items) (\<lambda>st. Inr (Some st))"
    using assms(5) by (simp add: platform_stats_def)
  note y = youtube_stats_spec [OF assms(5) assms(6,7) [unfolded views_def likes_def] assms(8)]
  have 1: "map_of es ''youtube'' =
           Some [(''avg_views'', of_int (truncated_mean views)),
                 (''avg_likes'', of_int (truncated_mean likes)),
                 (''view_to_like_ratio'',
                    if 0 < sum_list views
                    then binary64 (of_int (sum_list likes) / of_int (sum_list views)) else 0),
                 (''max_views'', of_int (Max (set views))),
                 (''min_views'', of_int (Min (set views))),
                 (''total_items'', of_nat (length items))]"
    using l [unfolded p y and_then_Inr sum.inject, symmetric] unfolding views_def likes_def .
  have 2: "returned (analyze L g scenario_a)
           (\<lambda>ins. map_of (engagement_insights ins) ''youtube'' =
              Some [(''avg_views'', 200), (''avg_likes'', 20),
                    (''view_to_like_ratio'', binary64 (1 / 10)),
                    (''max_views'', 300), (''min_views'', 100), (''total_items'', 2)])"
    by (rule returned_mono [OF scenario_a_engagement]) simp
  have 3: "returned (analyze L g scenario_b)
           (\<lambda>ins. map_of (engagement_insights ins) ''reddit'' =
              Some [(''avg_upvotes'', 0), (''avg_comments'', 0), (''engagement_rate'', 0),
                    (''total_items'', 1)])"
    by (rule returned_mono [OF scenario_b_engagement]) simp
  have 4: "analyze_engagement d' \<noteq> Inl ZeroDivisionError"
    using analyze_engagement_fault [of d' ZeroDivisionError] by auto
  show ?thesis using 1 2 3 4 by blast
qed

lemma scenario_a_items:
  "distinct (map fst scenario_a)"
  "map_of scenario_a ''youtube'' =
     Some [metrics_only [(''views'', 100), (''likes'', 10)],
           metrics_only [(''views'', 300), (''likes'', 30)]]"
  by (simp_all add: scenario_a_def)

theorem youtube_engagement_witness:
  "analyze_engagement scenario_a =
     Inr [(''youtube'',
           [(''avg_views'', 200), (''avg_likes'', 20), (''view_to_like_ratio'', binary64 (1 / 10)),
            (''max_views'', 300), (''min_views'', 100), (''total_items'', 2)])]
   \<and> [(''avg_views'', 200 :: rat), (''avg_likes'', 20), (''view_to_like_ratio'', binary64 (1 / 10)),
      (''max_views'', 300), (''min_views'', 100), (''total_items'', 2)] =
     [(''avg_views'', of_int (truncated_mean [100, 300])),
      (''avg_likes'', of_int (truncated_mean [10, 30])),
      (''view_to_like_ratio'', binary64 (of_int 40 / of_int 400)),
      (''max_views'', 300), (''min_views'', 100), (''total_items'', 2)]
   \<and> binary64 (1 / 10) = 3602879701896397 / 36028797018963968"
proof -
  have b: "binary64 (1 / 10) = 3602879701896397 / 36028797018963968" by code_simp
  show ?thesis
    using youtube_engagement [OF scenario_a_items(1,2) _ _ _ _ scenario_a_value, THEN conjunct1]
      scenario_a_value b
    by (simp add: metrics_only_def empty_item_def metric_def dict_get_def truncated_mean_def)
qed

theorem youtube_engagement_counterexample:
  "analyze canonical_lib draws big_views = Inr (projr (analyze canonical_lib draws big_views))
   \<and> engagement_insights (projr (analyze canonical_lib draws big_views)) =
       [(''youtube'',
         [(''avg_views'', 9007199254740992), (''avg_likes'', 0),
          (''view_to_like_ratio'', 0), (''max_views'', 9007199254740993),
          (''min_views'', 9007199254740993), (''total_items'', 1)])]
   \<and> truncated_mean [9007199254740993] = 9007199254740993
   \<and> analyze canonical_lib draws negative_views
       = Inr (projr (analyze canonical_lib draws negative_views))
   \<and> engagement_insights (projr (analyze canonical_lib draws negative_views)) =
       [(''youtube'',
         [(''avg_views'', - 100), (''avg_likes'', 10), (''view_to_like_ratio'', 0),
          (''max_views'', - 100), (''min_views'', - 100), (''total_items'', 1)])]
   \<and> sum_list [- 100] \<noteq> (0 :: int)"
  by code_simp

text \<open>
  C6 (as amended). Of the platforms other than \<^verbatim>\<open>youtube\<close> and \<^verbatim>\<open>reddit\<close>, only
  \<^verbatim>\<open>google_news\<close> gets an engagement entry: the number of records and the mean title
  length, whatever metrics the records carry. Every other platform name gets no entry.
\<close>

theorem other_platform_engagement:
  assumes "distinct (map fst d)" and "map_of d p = Some items" and "items \<noteq> []"
    and "p \<noteq> ''youtube''" and "p \<noteq> ''reddit''"
    and "analyze_engagement d = Inr es"
  shows "map_of es p =
           (if p = ''google_news'' then
              Some [(''total_items'', of_nat (length items)),
                    (''avg_title_length'',
                       binary64 (of_nat (sum_list (map (\<lambda>it. length (item_title it)) items))
                                 / of_nat (length items)))]
            else None)"
proof -
  have l: "platform_stats p items = Inr (map_of es p)"
    by (rule analyze_engagement_lookup [OF assms(1,2,6)])
  show ?thesis
  proof (cases "p = ''google_news''")
    case True
    then obtain r where
      r: "truediv (int (sum_list (map (\<lambda>it. length (item_title it)) items))) (int (length items))
          = Inr r"
      and m: "map_of es p = Some [(''total_items'', of_nat (length items)), (''avg_title_length'', r)]"
      using l assms(3) by (auto simp: platform_stats_def news_stats_def and_then_eq_Inr)
    show ?thesis using truediv_Inr [OF r] m True by simp
  next
    case False
    then show ?thesis using l assms(3,4,5) by (simp add: platform_stats_def)
  qed
qed

lemma news_data_value:
  "analyze_engagement news_data =
     Inr [(''google_news'', [(''total_items'', 2), (''avg_title_length'', 23 / 2)])]"
  by code_simp

theorem other_platform_engagement_witness:
  "analyze_engagement news_data =
     Inr [(''google_news'', [(''total_items'', 2), (''avg_title_length'', 23 / 2)])]
   \<and> [(''total_items'', 2 :: rat), (''avg_title_length'', 23 / 2)] =
     [(''total_items'', 2), (''avg_title_length'', binary64 (23 / 2))]"
  using news_data_value
    other_platform_engagement [of news_data "''google_news''"
      "[empty_item\<lparr>title := Some ''Markets rally''\<rparr>,
        empty_item\<lparr>title := Some ''Rates hold'',
                     engagement_metrics := Some [(''views'', 1500)]\<rparr>]", OF _ _ _ _ _ news_data_value]
  by (simp add: news_data_def item_title_def dict_get_def empty_item_def)

theorem other_platform_engagement_counterexample:
  "map_of twitter_data ''twitter'' \<noteq> Some []
   \<and> map_of twitter_data ''twitter'' \<noteq> None
   \<and> analyze canonical_lib draws twitter_data
       = Inr (projr (analyze canonical_lib draws twitter_data))
   \<and> map_of (engagement_insights (projr (analyze canonical_lib draws twitter_data)))
        ''twitter'' = None"
  by code_simp

section \<open>Recommendations: properties\<close>










section \<open>Viral-pattern analysis: properties\<close>

lemma first_seen_snoc:
  "first_seen (ws @ [w]) = (if w \<in> set ws then first_seen ws else first_seen ws @ [w])"
  by (simp add: first_seen_def)

lemma set_first_seen [simp]: "set (first_seen ws) = set ws"
  by (simp add: first_seen_def)

lemma distinct_first_seen [simp]: "distinct (first_seen ws)"
  by (simp add: first_seen_def)

lemma counter_add_map:
  assumes "distinct ks"
  shows "counter_add w (map (\<lambda>v. (v, f v)) ks) =
           (if w \<in> set ks then map (\<lambda>v. (v, if v = w then Suc (f v) else f v)) ks
            else map (\<lambda>v. (v, f v)) ks @ [(w, 1)])"
  using assms by (induction ks) auto

lemma counter_snoc: "counter (ws @ [w]) = counter_add w (counter ws)"
  by (simp add: counter_def)

lemma counter_spec: "counter ws = map (\<lambda>w. (w, count_list ws w)) (first_seen ws)"
proof (induction ws rule: rev_induct)
  case Nil
  then show ?case by (simp add: counter_def first_seen_def)
next
  case (snoc w ws)
  show ?case
  proof (cases "w \<in> set ws")
    case True
    then show ?thesis
      by (simp add: counter_snoc snoc counter_add_map first_seen_snoc)
  next
    case False
    then have "\<forall>x\<in>set ws. w \<noteq> x" by auto
    then show ?thesis using False
      by (simp add: counter_snoc snoc counter_add_map first_seen_snoc)
  qed
qed







lemma insort_key_map_pair:
  "\<forall>p \<in> set ps. snd p = c (fst p) \<Longrightarrow>
   map fst (insort_key (\<lambda>p. f (snd p)) (x, c x) ps) = insort_key (\<lambda>w. f (c w)) x (map fst ps)"
  by (induction ps) auto

lemma sort_key_map_pair:
  "map fst (sort_key (\<lambda>p. f (snd p)) (map (\<lambda>w. (w, c w)) xs)) = sort_key (\<lambda>w. f (c w)) xs"
proof (induction xs)
  case Nil
  then show ?case by simp
next
  case (Cons x xs)
  have "\<forall>p \<in> set (sort_key (\<lambda>p. f (snd p)) (map (\<lambda>w. (w, c w)) xs)). snd p = c (fst p)"
    by auto
  from insort_key_map_pair [OF this] show ?case using Cons by simp
qed



















section \<open>Posting-time analysis: properties\<close>

lemma randint_9_17: "9 \<le> randint 9 17 r \<and> randint 9 17 r \<le> 17"
proof -
  have "r mod 9 < 9" by simp
  then show ?thesis unfolding randint_def by simp
qed

lemma extract_hours_Cons:
  "fst (extract_hours L g k (it # its)) =
     record_hours L (g k) it
     @ fst (extract_hours L g (if unparsable L it then Suc k else k) its)"
  by (simp add: record_hours_def unparsable_def has_timestamp_def Let_def
      split: option.splits prod.splits)





lemma extract_hours_range:
  assumes "\<forall>s dt. parse_published L s = Some dt \<longrightarrow> hour dt < 24"
  shows "\<forall>h \<in> set (fst (extract_hours L g k items)). h < 24"
proof (induction items arbitrary: k)
  case Nil
  then show ?case by simp
next
  case (Cons it its)
  have "\<forall>h \<in> set (record_hours L (g k) it). h < 24"
    using assms randint_9_17 [of "g k"]
    by (auto simp: record_hours_def split: option.splits)
  then show ?case unfolding extract_hours_Cons using Cons by auto
qed

lemma analyze_posting_times_Cons:
  "analyze_posting_times L g k ((p, items) # rest) =
     (if items = [] then analyze_posting_times L g k rest
      else (p, posting_entry L (fst (extract_hours L g k items)))
           # analyze_posting_times L g (snd (extract_hours L g k items)) rest)"
  by (simp split: prod.splits)

lemma posting_times_keys:
  "map fst (analyze_posting_times L g k d) = map fst (filter (\<lambda>pi. snd pi \<noteq> []) d)"
proof (induction d arbitrary: k)
  case Nil
  then show ?case by simp
next
  case (Cons a d)
  obtain p items where a: "a = (p, items)" by (cases a)
  show ?case unfolding a analyze_posting_times_Cons by (simp add: Cons)
qed


lemma idxmax_sorted:
  "sorted_wrt (\<lambda>a b. snd b \<le> snd a) (b # ps) \<Longrightarrow> idxmax_from b ps = fst b"
proof (induction ps)
  case Nil
  then show ?case by simp
next
  case (Cons p ps)
  then have "\<not> snd b < snd p" by auto
  moreover have "sorted_wrt (\<lambda>a b. snd b \<le> snd a) (b # ps)" using Cons.prems by auto
  ultimately show ?case using Cons.IH by simp
qed

lemma hd_sort_Min: "xs \<noteq> [] \<Longrightarrow> hd (sort xs) = Min (set xs)"
proof -
  assume ne: "xs \<noteq> []"
  then have s: "sort xs \<noteq> []" by (metis length_0_conv length_sort)
  then obtain y ys where y: "sort xs = y # ys" by (cases "sort xs") auto
  have "sorted (y # ys)" using sorted_sort [of xs] y by simp
  then have "\<forall>z \<in> set (y # ys). y \<le> z" by auto
  moreover have "set (y # ys) = set xs" using y by (metis set_sort)
  ultimately have "Min (set xs) = y" by (intro Min_eqI) auto
  then show ?thesis by (simp add: y)
qed

lemma sorted_le_last: "sorted ys \<Longrightarrow> z \<in> set ys \<Longrightarrow> z \<le> last ys"
  by (induction ys) auto

lemma last_sort_Max: "xs \<noteq> [] \<Longrightarrow> last (sort xs) = Max (set xs)"
proof -
  assume ne: "xs \<noteq> []"
  then have s: "sort xs \<noteq> []" by (metis length_0_conv length_sort)
  have "\<forall>z \<in> set xs. z \<le> last (sort xs)"
    using sorted_le_last [OF sorted_sort [of xs]] by simp
  moreover have "last (sort xs) \<in> set xs" using last_in_set [OF s] by simp
  ultimately have "Max (set xs) = last (sort xs)" by (intro Max_eqI) auto
  then show ?thesis by simp
qed

lemma stable_value_counts_ok: "value_counts_ok canonical_lib hours"
proof -
  let ?k = "\<lambda>p :: nat \<times> nat. - int (snd p)"
  let ?rows = "sort_key ?k (counter hours)"
  have fst: "map fst ?rows = sort_key (\<lambda>w. - int (count_list hours w)) (first_seen hours)"
    unfolding counter_spec by (rule sort_key_map_pair)
  have 1: "distinct (map fst ?rows)" unfolding fst by simp
  have 2: "set (map fst ?rows) = set hours" unfolding fst by simp
  have 3: "list_all (\<lambda>r. snd r = count_list hours (fst r)) ?rows"
    by (auto simp: list_all_iff counter_spec)
  have "sorted (map ?k ?rows)" by (rule sorted_sort_key)
  then have 4: "sorted_wrt (\<lambda>a b. snd b \<le> snd a) ?rows"
    by (simp add: sorted_map)
  show ?thesis
    using 1 2 3 4
    by (simp add: value_counts_ok_def canonical_lib_def stable_value_counts_def Let_def)
qed

lemma posting_entry_spec:
  fixes L :: pylib and hours :: "nat list"
  defines "e \<equiv> posting_entry L hours"
  assumes ne: "hours \<noteq> []" and ok: "value_counts_ok L hours"
  shows "sorted (peak_hours e)" and "distinct (peak_hours e)"
    and "length (peak_hours e) = min 3 (card (set hours))"
    and "set (peak_hours e) \<subseteq> set hours"
    and "\<forall>h \<in> set hours. h \<notin> set (peak_hours e) \<longrightarrow>
           (\<forall>p \<in> set (peak_hours e). count_list hours h \<le> count_list hours p)"
    and "best_time_range e =
           (if 2 \<le> length (peak_hours e)
            then show_nat (Min (set (peak_hours e))) @ '':00 - ''
                 @ show_nat (Max (set (peak_hours e))) @ '':00''
            else show_nat (hd (peak_hours e)) @ '':00 - ''
                 @ show_nat ((hd (peak_hours e) + 3) mod 24) @ '':00'')"
    and "sample_size e = length hours"
    and "peak_hour e \<in> set (peak_hours e)"
    and "\<forall>h \<in> set hours. count_list hours h \<le> count_list hours (peak_hour e)"
proof -
  define rows where "rows = value_counts L hours"
  have d: "distinct (map fst rows)" and s: "set (map fst rows) = set hours"
    and c: "\<forall>r \<in> set rows. snd r = count_list hours (fst r)"
    and o: "sorted_wrt (\<lambda>a b. snd b \<le> snd a) rows"
    using ok by (simp_all add: value_counts_ok_def rows_def Let_def list_all_iff)
  have rne: "rows \<noteq> []" using s ne by auto
  define peak where "peak = sort (map fst (take 3 rows))"
  have e: "e = \<lparr>peak_hours = peak, best_time_range = time_range peak,
                sample_size = length hours, peak_hour = idxmax rows\<rparr>"
    using ne rne by (simp add: e_def posting_entry_def rows_def [symmetric] Let_def peak_def)
  have pk: "peak_hours e = peak" by (simp add: e)
  have tk: "map fst (take 3 rows) \<noteq> []" using rne by (cases rows) auto
  then have pne: "peak \<noteq> []" unfolding peak_def by (metis length_0_conv length_sort)
  show "sorted (peak_hours e)" by (simp add: pk peak_def)
  have dt: "distinct (map fst (take 3 rows))" using d by (simp add: take_map [symmetric] distinct_take)
  then show "distinct (peak_hours e)" by (simp add: pk peak_def)
  have "length rows = card (set hours)"
    using distinct_card [OF d] s by simp
  then show "length (peak_hours e) = min 3 (card (set hours))"
    by (simp add: pk peak_def min.commute)
  have sub: "set peak \<subseteq> fst ` set rows"
    unfolding peak_def using set_take_subset [of 3 rows] by auto
  then show "set (peak_hours e) \<subseteq> set hours" using s by (simp add: pk)
  show "\<forall>h \<in> set hours. h \<notin> set (peak_hours e) \<longrightarrow>
           (\<forall>p \<in> set (peak_hours e). count_list hours h \<le> count_list hours p)"
  proof (intro ballI impI)
    fix h p
    assume h: "h \<in> set hours" "h \<notin> set (peak_hours e)" and p: "p \<in> set (peak_hours e)"
    have split: "rows = take 3 rows @ drop 3 rows" by simp
    have "p \<in> fst ` set (take 3 rows)" using p by (simp add: pk peak_def)
    then obtain rp where rp: "rp \<in> set (take 3 rows)" "fst rp = p" by (metis imageE)
    have "h \<in> fst ` set rows" using h(1) s by simp
    then obtain rh where rh: "rh \<in> set rows" "fst rh = h" by (metis imageE)
    have "rh \<notin> set (take 3 rows)" using h(2) rh(2) by (auto simp: pk peak_def)
    then have rhd: "rh \<in> set (drop 3 rows)" using rh(1) split by (metis Un_iff set_append)
    have "sorted_wrt (\<lambda>a b. snd b \<le> snd a) (take 3 rows @ drop 3 rows)" using o by simp
    then have "snd rh \<le> snd rp" using rp(1) rhd unfolding sorted_wrt_append by blast
    moreover have "snd rh = count_list hours h" using c rh by auto
    moreover have "snd rp = count_list hours p"
      using c rp in_set_takeD [of rp 3 rows] by auto
    ultimately show "count_list hours h \<le> count_list hours p" by simp
  qed
  have "hd peak = Min (set peak)" "last peak = Max (set peak)"
    unfolding peak_def using hd_sort_Min [OF tk] last_sort_Max [OF tk] by simp_all
  then show "best_time_range e =
           (if 2 \<le> length (peak_hours e)
            then show_nat (Min (set (peak_hours e))) @ '':00 - ''
                 @ show_nat (Max (set (peak_hours e))) @ '':00''
            else show_nat (hd (peak_hours e)) @ '':00 - ''
                 @ show_nat ((hd (peak_hours e) + 3) mod 24) @ '':00'')"
    by (simp add: e time_range_def)
  show "sample_size e = length hours" by (simp add: e)
  obtain b ps where rows: "rows = b # ps" using rne by (cases rows) auto
  have im: "idxmax rows = fst b"
    using idxmax_sorted [of b ps] o by (simp add: idxmax_def rows)
  have "fst b \<in> set (map fst (take 3 rows))" by (simp add: rows)
  then show "peak_hour e \<in> set (peak_hours e)" by (simp add: e im peak_def)
  show "\<forall>h \<in> set hours. count_list hours h \<le> count_list hours (peak_hour e)"
  proof
    fix h
    assume "h \<in> set hours"
    then have "h \<in> fst ` set rows" using s by simp
    then obtain rh where rh: "rh \<in> set rows" "fst rh = h" by (metis imageE)
    have "snd rh \<le> snd b" using o rh(1) by (auto simp: rows)
    moreover have "snd rh = count_list hours h" using c rh by auto
    moreover have "snd b = count_list hours (fst b)" using c by (simp add: rows)
    ultimately show "count_list hours h \<le> count_list hours (peak_hour e)" by (simp add: e im)
  qed
qed

text \<open>
  C4 (as amended). For hours below 24, not none, and a \<^verbatim>\<open>value_counts\<close> that lists each
  distinct hour once with its number of occurrences, the rows in descending order of
  that number: \<open>peak_hours\<close> is in strictly ascending order, of length 3 or the number
  of distinct hours if that is less, holds hours that occur, all below 24, and no hour
  left out occurs more often than an hour it holds (which hours of equal count it holds
  is the choice of \<^verbatim>\<open>value_counts\<close>); \<open>best_time_range\<close> names the smallest and the
  largest of them, or, when there is only one, that hour and the hour three later modulo
  24; \<open>sample_size\<close> is the number of hours, and \<open>peak_hour\<close> is one of the peak hours,
  which no hour exceeds in occurrences.
\<close>

theorem peak_hours_selection:
  fixes L :: pylib and hours :: "nat list"
  defines "e \<equiv> posting_entry L hours"
  assumes "hours \<noteq> []" and "value_counts_ok L hours" and "\<forall>h \<in> set hours. h < 24"
  shows "sorted (peak_hours e) \<and> distinct (peak_hours e)
       \<and> length (peak_hours e) = min 3 (card (set hours))
       \<and> set (peak_hours e) \<subseteq> set hours
       \<and> (\<forall>h \<in> set (peak_hours e). h < 24)
       \<and> (\<forall>h \<in> set hours. h \<notin> set (peak_hours e) \<longrightarrow>
            (\<forall>p \<in> set (peak_hours e). count_list hours h \<le> count_list hours p))
       \<and> best_time_range e =
           (if 2 \<le> length (peak_hours e)
            then show_nat (Min (set (peak_hours e))) @ '':00 - ''
                 @ show_nat (Max (set (peak_hours e))) @ '':00''
            else show_nat (hd (peak_hours e)) @ '':00 - ''
                 @ show_nat ((hd (peak_hours e) + 3) mod 24) @ '':00'')
       \<and> sample_size e = length hours
       \<and> peak_hour e \<in> set (peak_hours e)
       \<and> (\<forall>h \<in> set hours. count_list hours h \<le> count_list hours (peak_hour e))"
proof -
  note p = posting_entry_spec [OF assms(2,3), folded e_def]
  have "\<forall>h \<in> set (peak_hours e). h < 24" using p(4) assms(4) by auto
  then show ?thesis using p by blast
qed

lemma tie_hours_entry:
  "posting_entry canonical_lib [15, 14, 13, 9] =
     \<lparr>peak_hours = [13, 14, 15], best_time_range = ''13:00 - 15:00'', sample_size = 4,
      peak_hour = 15\<rparr>"
  by code_simp

theorem peak_hours_selection_witness:
  "posting_entry canonical_lib [15, 14, 13, 9] =
     \<lparr>peak_hours = [13, 14, 15], best_time_range = ''13:00 - 15:00'', sample_size = 4,
      peak_hour = 15\<rparr>
   \<and> sorted [13, 14, 15 :: nat] \<and> distinct [13, 14, 15 :: nat]
   \<and> length [13, 14, 15 :: nat] = min 3 (card {15, 14, 13, 9 :: nat})
   \<and> ''13:00 - 15:00'' = show_nat 13 @ '':00 - '' @ show_nat 15 @ '':00''"
  using peak_hours_selection [of "[15, 14, 13, 9]" canonical_lib, OF _ stable_value_counts_ok]
    tie_hours_entry
  by simp

theorem peak_hours_selection_counterexample:
  "analyze_posting_times canonical_lib draws 0 tie_hours =
     [(''blog'', \<lparr>peak_hours = [13, 14, 15], best_time_range = ''13:00 - 15:00'',
                 sample_size = 4, peak_hour = 15\<rparr>)]
   \<and> value_counts_ok canonical_lib [15, 14, 13, 9]
   \<and> peak_hours_spec [15, 14, 13, 9] = [9, 13, 14]"
  by code_simp







section \<open>Platforms and keys\<close>

lemma collect_keys:
  "collect keyword_entry groups = Inr entries \<Longrightarrow> map fst entries = map fst groups"
proof (induction groups arbitrary: entries)
  case Nil
  then show ?case by simp
next
  case (Cons a groups)
  from Cons.prems obtain y ys where
    y: "keyword_entry a = Inr y" and ys: "collect keyword_entry groups = Inr ys"
    and e: "entries = y # ys"
    by (auto simp: and_then_eq_Inr)
  have "fst y = fst a"
    using y by (auto simp: keyword_entry_def Let_def and_then_eq_Inr split: if_splits)
  then show ?case using Cons.IH [OF ys] e by simp
qed

lemma keywords_keys:
  "analyze_keywords d = Inr ks \<Longrightarrow> map fst ks = map fst (filter (\<lambda>pi. snd pi \<noteq> []) d)"
proof (induction d arbitrary: ks)
  case Nil
  then show ?case by simp
next
  case (Cons a d)
  obtain p items where a: "a = (p, items)" by (cases a)
  show ?case
  proof (cases "items = []")
    case True
    then show ?thesis using Cons by (simp add: a)
  next
    case False
    then obtain st rest where "analyze_keywords d = Inr rest" "ks = (p, st) # rest"
      using Cons.prems by (auto simp: a and_then_eq_Inr)
    then show ?thesis using Cons.IH False by (simp add: a)
  qed
qed

lemma platforms_keys:
  "analyze_platforms L d = Inr ps \<Longrightarrow>
   map (\<lambda>ps. (fst ps, total_items (snd ps))) ps
     = map (\<lambda>pi. (fst pi, length (snd pi))) (filter (\<lambda>pi. snd pi \<noteq> []) d)"
proof (induction d arbitrary: ps)
  case Nil
  then show ?case by simp
next
  case (Cons a d)
  obtain p items where a: "a = (p, items)" by (cases a)
  show ?case
  proof (cases "items = []")
    case True
    then show ?thesis using Cons by (simp add: a)
  next
    case False
    then obtain s rest where "analyze_platforms L d = Inr rest" "ps = (p, s) # rest"
      "total_items s = length items"
      using Cons.prems by (auto simp: a split: sum.splits)
    then show ?thesis using Cons.IH False by (simp add: a)
  qed
qed

lemma engagement_keys:
  "analyze_engagement d = Inr es \<Longrightarrow> fst ` set es \<subseteq> fst ` set (filter (\<lambda>pi. snd pi \<noteq> []) d)"
proof (induction d arbitrary: es)
  case Nil
  then show ?case by simp
next
  case (Cons a d)
  obtain p items where a: "a = (p, items)" by (cases a)
  from Cons.prems obtain entry rest where
    e: "platform_stats p items = Inr entry" and r: "analyze_engagement d = Inr rest"
    and es: "es = (case entry of None \<Rightarrow> rest | Some st \<Rightarrow> (p, st) # rest)"
    by (auto simp: a and_then_eq_Inr)
  have "entry = None" if "items = []" using e that by (simp add: platform_stats_def)
  then show ?case using Cons.IH [OF r] by (cases entry) (auto simp: es a)
qed

lemma map_of_filter_nonempty:
  assumes "distinct (map fst d)"
  shows "map_of (filter (\<lambda>pi. snd pi \<noteq> []) d) p =
           (case map_of d p of None \<Rightarrow> None | Some items \<Rightarrow> if items = [] then None else Some items)"
  using assms
proof (induction d)
  case Nil
  then show ?case by simp
next
  case (Cons a d)
  obtain q its where a: "a = (q, its)" by (cases a)
  have "map_of d q = None" using Cons.prems by (simp add: a map_of_eq_None_iff)
  then show ?case using Cons by (auto simp: a split: option.splits)
qed

lemma keys_of_nonempty:
  assumes "distinct (map fst d)"
  shows "p \<in> set (map fst (filter (\<lambda>pi. snd pi \<noteq> []) d))
         \<longleftrightarrow> (\<exists>items. map_of d p = Some items \<and> items \<noteq> [])"
proof -
  have "p \<in> set (map fst (filter (\<lambda>pi. snd pi \<noteq> []) d))
        \<longleftrightarrow> map_of (filter (\<lambda>pi. snd pi \<noteq> []) d) p \<noteq> None"
    by (simp add: map_of_eq_None_iff)
  then show ?thesis
    unfolding map_of_filter_nonempty [OF assms] by (auto split: option.splits)
qed

text \<open>
  C2 (as amended). When no stage of the \<^verbatim>\<open>try\<close> block raises, \<open>analyze\<close> returns the
  insights the block built, and in them the keys of \<open>best_posting_times\<close>, of
  \<open>keyword_performance\<close> and of \<open>platform_insights\<close> are the platforms of the dataset that
  have a record, in the order of the dataset, \<open>total_items\<close> being the number of records
  of the platform; the keys of \<open>engagement_insights\<close> are among them; the keys of the viral
  block are its four fixed names. So a platform with a record is a key of
  \<open>best_posting_times\<close> and of \<open>platform_insights\<close>, and a platform without a record, or
  absent, is a key of none of the four blocks that platforms index.
\<close>

theorem platform_keys:
  assumes "distinct (map fst d)" and "analyze_body L g d = Inr ins"
  shows "analyze L g d = Inr ins
       \<and> map fst (best_posting_times ins) = map fst (filter (\<lambda>pi. snd pi \<noteq> []) d)
       \<and> map (\<lambda>ps. (fst ps, total_items (snd ps))) (platform_insights ins)
           = map (\<lambda>pi. (fst pi, length (snd pi))) (filter (\<lambda>pi. snd pi \<noteq> []) d)
       \<and> map fst (keyword_performance ins) = map fst (filter (\<lambda>pi. snd pi \<noteq> []) d)
       \<and> fst ` set (engagement_insights ins) \<subseteq> fst ` set (filter (\<lambda>pi. snd pi \<noteq> []) d)
       \<and> map fst (viral_content_patterns ins) =
           [''high_engagement_titles'', ''common_keywords_in_viral'',
            ''content_length_pattern'', ''emotional_triggers'']
       \<and> (\<forall>p items. map_of d p = Some items \<and> items \<noteq> [] \<longrightarrow>
            p \<in> fst ` set (best_posting_times ins)
            \<and> (\<exists>s. map_of (platform_insights ins) p = Some s \<and> total_items s = length items))
       \<and> (\<forall>p. map_of d p = None \<or> map_of d p = Some [] \<longrightarrow>
            p \<notin> fst ` set (best_posting_times ins)
            \<and> p \<notin> fst ` set (engagement_insights ins)
            \<and> p \<notin> fst ` set (keyword_performance ins)
            \<and> p \<notin> fst ` set (platform_insights ins))"
proof -
  let ?ne = "filter (\<lambda>pi. snd pi \<noteq> []) d"
  from assms(2) obtain viral engagement kws platforms where
    v: "analyze_viral_patterns d = Inr viral" and en: "analyze_engagement d = Inr engagement"
    and k: "analyze_keywords d = Inr kws" and pl: "analyze_platforms L d = Inr platforms"
    and ins: "ins = \<lparr>best_posting_times = analyze_posting_times L g 0 d,
                  viral_content_patterns = viral, engagement_insights = engagement,
                  keyword_performance = kws, platform_insights = platforms\<rparr>"
    unfolding analyze_body_Inr by blast
  have 0: "analyze L g d = Inr ins" using assms(2) by (simp add: analyze_def)
  have 1: "map fst (best_posting_times ins) = map fst ?ne"
    by (simp add: ins posting_times_keys)
  have 2: "map (\<lambda>ps. (fst ps, total_items (snd ps))) (platform_insights ins)
           = map (\<lambda>pi. (fst pi, length (snd pi))) ?ne"
    using platforms_keys [OF pl] by (simp add: ins)
  have 3: "map fst (keyword_performance ins) = map fst ?ne"
    using keywords_keys [OF k] by (simp add: ins)
  have 4: "fst ` set (engagement_insights ins) \<subseteq> fst ` set ?ne"
    using engagement_keys [OF en] by (simp add: ins)
  have 5: "map fst (viral_content_patterns ins) =
           [''high_engagement_titles'', ''common_keywords_in_viral'',
            ''content_length_pattern'', ''emotional_triggers'']"
    using viral_keys [OF v] by (simp add: ins)
  have pk: "map fst (platform_insights ins) = map fst ?ne"
  proof -
    have "map fst (map (\<lambda>ps. (fst ps, total_items (snd ps))) (platform_insights ins))
          = map fst (map (\<lambda>pi. (fst pi, length (snd pi))) ?ne)"
      by (simp only: 2)
    then show ?thesis by (simp add: comp_def)
  qed
  have dne: "distinct (map fst ?ne)" using assms(1) by (rule distinct_map_filter)
  have k1: "fst ` set (best_posting_times ins) = fst ` set ?ne"
    using arg_cong [OF 1, of set] by simp
  have k3: "fst ` set (keyword_performance ins) = fst ` set ?ne"
    using arg_cong [OF 3, of set] by simp
  have kp: "fst ` set (platform_insights ins) = fst ` set ?ne"
    using arg_cong [OF pk, of set] by simp
  have 6: "p \<in> fst ` set (best_posting_times ins)
            \<and> (\<exists>s. map_of (platform_insights ins) p = Some s \<and> total_items s = length items)"
    if h: "map_of d p = Some items \<and> items \<noteq> []" for p items
  proof -
    have mem: "(p, items) \<in> set ?ne" using h map_of_SomeD [of d p items] by simp
    then have "p \<in> fst ` set ?ne" by force
    then have a: "p \<in> fst ` set (best_posting_times ins)" by (simp only: k1)
    have "(p, length items) \<in> set (map (\<lambda>pi. (fst pi, length (snd pi))) ?ne)"
      using mem by force
    then have "(p, length items) \<in> set (map (\<lambda>ps. (fst ps, total_items (snd ps))) (platform_insights ins))"
      by (simp only: 2)
    then obtain ps where ps: "ps \<in> set (platform_insights ins)" "fst ps = p"
      "total_items (snd ps) = length items"
      by auto
    have "distinct (map fst (platform_insights ins))" using dne by (simp only: pk)
    then have "map_of (platform_insights ins) p = Some (snd ps)"
      using ps(1,2) by (metis map_of_is_SomeI prod.collapse)
    then show ?thesis using a ps(3) by blast
  qed
  have 7: "p \<notin> fst ` set (best_posting_times ins)
            \<and> p \<notin> fst ` set (engagement_insights ins)
            \<and> p \<notin> fst ` set (keyword_performance ins)
            \<and> p \<notin> fst ` set (platform_insights ins)"
    if h: "map_of d p = None \<or> map_of d p = Some []" for p
  proof -
    have n: "p \<notin> fst ` set ?ne"
      using keys_of_nonempty [OF assms(1), of p] h by auto
    show ?thesis unfolding k1 k3 kp using n 4 by blast
  qed
  have all6: "\<forall>p items. map_of d p = Some items \<and> items \<noteq> [] \<longrightarrow>
            p \<in> fst ` set (best_posting_times ins)
            \<and> (\<exists>s. map_of (platform_insights ins) p = Some s \<and> total_items s = length items)"
    using 6 by blast
  have all7: "\<forall>p. map_of d p = None \<or> map_of d p = Some [] \<longrightarrow>
            p \<notin> fst ` set (best_posting_times ins)
            \<and> p \<notin> fst ` set (engagement_insights ins)
            \<and> p \<notin> fst ` set (keyword_performance ins)
            \<and> p \<notin> fst ` set (platform_insights ins)"
    using 7 by blast
  show ?thesis by (intro conjI) (rule 0 1 2 3 4 5 all6 all7)+
qed

theorem platform_keys_witness:
  "analyze_body canonical_lib draws test_data =
     Inr (projr (analyze_body canonical_lib draws test_data))
   \<and> map fst (best_posting_times (projr (analyze_body canonical_lib draws test_data)))
       = [''youtube'', ''reddit'']
   \<and> map (\<lambda>ps. (fst ps, total_items (snd ps)))
         (platform_insights (projr (analyze_body canonical_lib draws test_data)))
       = [(''youtube'', 2), (''reddit'', 1)]"
proof -
  have d: "distinct (map fst test_data)" by (simp add: test_data_def)
  show ?thesis
    using platform_keys [OF d test_data_success] test_data_success
    by (simp add: test_data_def)
qed

theorem platform_keys_counterexample:
  "map_of mixed_dates ''youtube'' =
     Some [video ''Launch day'' ''2024-01-15T10:00:00Z'' 100 10,
           video ''Second look'' ''2024-01-16T10:00:00'' 300 30]
   \<and> analyze canonical_lib draws mixed_dates =
       Inr \<lparr>best_posting_times = [], viral_content_patterns = [], engagement_insights = [],
            keyword_performance = [], platform_insights = []\<rparr>
   \<and> map_of named_like_key ''emotional_triggers'' = Some []
   \<and> analyze canonical_lib draws named_like_key =
       Inr \<lparr>best_posting_times = [],
            viral_content_patterns =
              [(''high_engagement_titles'', VList []), (''common_keywords_in_viral'', VList []),
               (''content_length_pattern'', VEmptyDict), (''emotional_triggers'', VList [])],
            engagement_insights = [], keyword_performance = [], platform_insights = []\<rparr>"
  by code_simp

end
